theory Spec2Isabelle
  imports Main "HOL-Library.AList"

begin

section \<open>The export-job subsystem of the dashboard server\<close>

text \<open>
  The server keeps one process-wide table \<^verbatim>\<open>const jobStatus = {}\<close>, a directory
  \<^verbatim>\<open>tempDir\<close> of artifact files, and three routes around the background function
  \<^verbatim>\<open>processSavingsExport\<close>:
  \<^item> \<^verbatim>\<open>GET /org/:id/download_monthly_savings_csv\<close> creates a job and spawns the worker;
  \<^item> \<^verbatim>\<open>GET /api/job-status/:jobId\<close> sweeps old jobs and reports one job;
  \<^item> \<^verbatim>\<open>GET /api/download/:jobId\<close> streams the artifact and unlinks it afterwards.

  Node runs every handler and every stretch of an async function between two
  \<^verbatim>\<open>await\<close>s without interruption, so the model is a state machine whose events are
  the requests and the resumptions of suspended continuations. What the outside world
  answers (clock readings, the remote replies, the outcome of a write, a transfer or
  an unlink) is the payload of the event.
\<close>

subsection \<open>Job records and the table\<close>

text \<open>
  A record of \<^verbatim>\<open>jobStatus\<close>. \<^verbatim>\<open>exportId\<close> and \<^verbatim>\<open>error\<close> start as \<^verbatim>\<open>null\<close>
  (\<open>None\<close>); \<^verbatim>\<open>orgName\<close> is absent until the worker assigns it. \<^verbatim>\<open>created\<close> is a
  reading of \<^verbatim>\<open>Date.now()\<close>, milliseconds since the epoch.
\<close>

record job =
  status :: string
  orgId :: string
  exportId :: "string option"
  error :: "string option"
  created :: nat
  orgName :: "string option"

text \<open>
  The table is a plain object: its own properties in insertion order. Assigning to a
  key that exists keeps its place (\<open>AList.update\<close>), \<^verbatim>\<open>delete\<close> removes it
  (\<open>AList.delete\<close>), \<^verbatim>\<open>Object.keys\<close> lists the own keys.
\<close>

type_synonym job_table = "(string \<times> job) list"

text \<open>
  \<^verbatim>\<open>jobStatus[k]\<close> is a property read on an object created by \<^verbatim>\<open>{}\<close>: when the
  object has no own property \<open>k\<close> the read continues in \<^verbatim>\<open>Object.prototype\<close>, whose
  members every such object inherits. They are functions, except \<^verbatim>\<open>__proto__\<close>, which
  reads as the prototype object itself; all of them are truthy.
\<close>

definition object_prototype_keys :: "string list" where
  "object_prototype_keys =
     [''constructor'', ''__defineGetter__'', ''__defineSetter__'', ''hasOwnProperty'',
      ''__lookupGetter__'', ''__lookupSetter__'', ''isPrototypeOf'',
      ''propertyIsEnumerable'', ''toString'', ''valueOf'', ''__proto__'',
      ''toLocaleString'']"

datatype js_value = Undefined | JobRef job | Inherited string

definition js_get :: "job_table \<Rightarrow> string \<Rightarrow> js_value" where
  "js_get tbl k =
     (case map_of tbl k of
        Some j \<Rightarrow> JobRef j
      | None \<Rightarrow> if k \<in> set object_prototype_keys then Inherited k else Undefined)"

text \<open>\<^verbatim>\<open>x || d\<close> on a value that is a string, \<^verbatim>\<open>null\<close> or \<^verbatim>\<open>undefined\<close>.\<close>

definition or_else :: "string option \<Rightarrow> string \<Rightarrow> string" where
  "or_else x d = (case x of None \<Rightarrow> d | Some v \<Rightarrow> if v = [] then d else v)"

subsection \<open>Identifiers and paths\<close>

text \<open>\<^verbatim>\<open>String(n)\<close> for a non-negative integer: its decimal digits.\<close>

fun digits_of :: "nat \<Rightarrow> string" where
  "digits_of n =
     (if n < 10 then [''0123456789'' ! n]
      else digits_of (n div 10) @ [''0123456789'' ! (n mod 10)])"

declare digits_of.simps [simp del]

text \<open>
  The template \<^verbatim>\<open>`savings-export-${orgId}-${Date.now()}`\<close>, used for the job id at
  start and again for the export id when the report has arrived.
\<close>

definition savings_export_id :: "string \<Rightarrow> nat \<Rightarrow> string" where
  "savings_export_id org now = ''savings-export-'' @ org @ ''-'' @ digits_of now"

text \<open>
  \<^verbatim>\<open>tempDir = path.join(__dirname, 'temp')\<close>; the directory of the script is written
  \<open>''.''\<close>. \<^verbatim>\<open>path.join(tempDir, `${exportId}.zip`)\<close> is modelled as concatenation,
  without the normalisation of dot segments: for an organisation id that holds
  \<^verbatim>\<open>/..\<close> the program may give two export ids the same file where the model gives them
  two. No statement below relies on distinct export ids naming distinct files.
\<close>

definition tempDir :: string where
  "tempDir = ''./temp''"

definition file_path :: "string \<Rightarrow> string" where
  "file_path eid = tempDir @ ''/'' @ eid @ ''.zip''"

subsection \<open>Server state\<close>

text \<open>
  A worker is one call of \<^verbatim>\<open>processSavingsExport(orgId, jobId)\<close>, suspended at one of
  its three \<^verbatim>\<open>await\<close>s or finished. At the third it holds its local \<^verbatim>\<open>exportId\<close>
  and the report bytes being written.
\<close>

datatype worker_pc = AwaitName | AwaitReport | AwaitWrite string string | Finished

record worker =
  w_orgId :: string
  w_jobId :: string
  w_pc :: worker_pc

text \<open>
  \<open>disk\<close> maps the path of each existing file to its content; \<open>workers\<close> lists every
  worker spawned so far, in spawning order; \<open>sending\<close> lists the files whose
  \<^verbatim>\<open>res.download\<close> transfer has not called back yet.
\<close>

record server =
  jobStatus :: job_table
  disk :: "string \<rightharpoonup> string"
  workers :: "worker list"
  sending :: "string list"

definition init :: server where
  "init = \<lparr>jobStatus = [], disk = Map.empty, workers = [], sending = []\<rparr>"

datatype response =
    StartJson string string string
  | Json js_value
  | NotFound string
  | Attachment string string
  | ServerError string
  | NoResponse

subsection \<open>Start: \<^verbatim>\<open>GET /org/:id/download_monthly_savings_csv\<close>\<close>

text \<open>
  The handler reads the clock twice, once for the id and once for \<^verbatim>\<open>created\<close>. It
  answers, then calls the async worker, which runs up to its first \<^verbatim>\<open>await\<close> (the
  name request is issued, nothing is written) and returns. No statement of the
  \<^verbatim>\<open>try\<close> block throws, so the 500 branch is not taken.
\<close>

definition start :: "server \<Rightarrow> string \<Rightarrow> nat \<Rightarrow> nat \<Rightarrow> server \<times> response" where
  "start s org now1 now2 =
     (let jobId = savings_export_id org now1;
          rec = \<lparr>status = ''processing'', orgId = org, exportId = None, error = None,
                 created = now2, orgName = None\<rparr>
      in (s\<lparr>jobStatus := AList.update jobId rec (jobStatus s),
            workers := workers s @ [\<lparr>w_orgId = org, w_jobId = jobId, w_pc = AwaitName\<rparr>]\<rparr>,
          StartJson ''processing'' ''Export started. You will be notified when complete.''
            jobId))"

subsection \<open>Status: \<^verbatim>\<open>GET /api/job-status/:jobId\<close>\<close>

text \<open>
  \<^verbatim>\<open>jobStatus[id].created && now - jobStatus[id].created > 3600000\<close>: a \<^verbatim>\<open>created\<close>
  of 0 is falsy.
\<close>

definition expired :: "nat \<Rightarrow> job \<Rightarrow> bool" where
  "expired now j = (created j \<noteq> 0 \<and> int now - int (created j) > 3600000)"

text \<open>The body of the \<^verbatim>\<open>forEach\<close>, for one id of the key snapshot.\<close>

definition reap :: "nat \<Rightarrow> string \<Rightarrow> job_table \<Rightarrow> job_table" where
  "reap now k tbl =
     (case map_of tbl k of
        None \<Rightarrow> tbl
      | Some j \<Rightarrow> if expired now j then AList.delete k tbl else tbl)"

definition sweep :: "nat \<Rightarrow> job_table \<Rightarrow> job_table" where
  "sweep now tbl = fold (reap now) (map fst tbl) tbl"

definition job_status :: "server \<Rightarrow> string \<Rightarrow> nat \<Rightarrow> server \<times> response" where
  "job_status s jobId now =
     (let s' = s\<lparr>jobStatus := sweep now (jobStatus s)\<rparr>
      in case js_get (jobStatus s') jobId of
           Undefined \<Rightarrow> (s', NotFound ''Job not found'')
         | v \<Rightarrow> (s', Json v))"

subsection \<open>Download: \<^verbatim>\<open>GET /api/download/:jobId\<close>\<close>

text \<open>
  An inherited member has no \<^verbatim>\<open>exportId\<close>, so it takes the first 404 like an unknown
  id. The handler starts the transfer; the callback of \<^verbatim>\<open>res.download\<close> runs later
  (\<open>sent\<close>). No statement of the \<^verbatim>\<open>try\<close> block throws, so the 500 branch is not
  taken.
\<close>

definition download :: "server \<Rightarrow> string \<Rightarrow> server \<times> response" where
  "download s jobId =
     (case js_get (jobStatus s) jobId of
        Undefined \<Rightarrow> (s, NotFound ''Export not found or not completed'')
      | Inherited m \<Rightarrow> (s, NotFound ''Export not found or not completed'')
      | JobRef j \<Rightarrow>
          (case exportId j of
             None \<Rightarrow> (s, NotFound ''Export not found or not completed'')
           | Some eid \<Rightarrow>
               if eid = [] then (s, NotFound ''Export not found or not completed'')
               else
                 let filePath = file_path eid;
                     name = or_else (orgName j) ''organization''
                 in if disk s filePath = None then (s, NotFound ''Export file not found'')
                    else (s\<lparr>sending := sending s @ [filePath]\<rparr>,
                          Attachment filePath (name @ ''-savings-analysis.zip''))))"

text \<open>
  The callback: on a transfer error it only logs; otherwise it unlinks the file, and
  an unlink error is only logged.
\<close>

datatype unlink_reply = UnlinkError | Unlinked

datatype send_reply = SendError | Sent unlink_reply

definition sent :: "server \<Rightarrow> string \<Rightarrow> send_reply \<Rightarrow> server" where
  "sent s filePath r =
     (if filePath \<in> set (sending s) then
        (let s' = s\<lparr>sending := remove1 filePath (sending s)\<rparr>
         in case r of
              SendError \<Rightarrow> s'
            | Sent UnlinkError \<Rightarrow> s'
            | Sent Unlinked \<Rightarrow> s'\<lparr>disk := (disk s)(filePath := None)\<rparr>)
      else s)"

subsection \<open>The worker: \<^verbatim>\<open>processSavingsExport\<close>\<close>

text \<open>
  What resumes a suspended worker. \<open>NameError\<close> and \<open>ReportError\<close> carry the message
  of the error the awaited request rejects with (\<open>NameError\<close> also stands for a
  \<^verbatim>\<open>TypeError\<close> on reading \<^verbatim>\<open>orgResponse.data.org\<close>); \<open>NameData\<close> carries the value of
  \<^verbatim>\<open>orgResponse.data.org?.org\<close>; \<open>ReportData\<close> carries the bytes and the clock reading
  taken for the export id. \<open>WriteError m left\<close> is a rejected \<^verbatim>\<open>writeFile\<close>, where
  \<open>left\<close> is the content that the failed write left at the path, if it created the
  file at all.
\<close>

datatype name_reply = NameError string | NameData "string option"

datatype report_reply = ReportError string | ReportData string nat

datatype write_reply = WriteError string "string option" | WriteOk

datatype reply = NameReply name_reply | ReportReply report_reply | WriteReply write_reply

text \<open>
  The \<^verbatim>\<open>catch\<close> block: \<^verbatim>\<open>if (jobStatus[jobId]) { status = 'error'; error =
  error.message || 'Export failed' }\<close>. The job ids of workers come from \<open>start\<close> and
  are never inherited keys.
\<close>

definition catch_block :: "job_table \<Rightarrow> string \<Rightarrow> string \<Rightarrow> job_table" where
  "catch_block tbl jobId msg =
     (case map_of tbl jobId of
        None \<Rightarrow> tbl
      | Some j \<Rightarrow>
          AList.update jobId
            (j\<lparr>status := ''error'', error := Some (or_else (Some msg) ''Export failed'')\<rparr>) tbl)"

text \<open>
  One stretch of the function, from the \<^verbatim>\<open>await\<close> it is suspended at to the next one
  or to its end. An assignment \<^verbatim>\<open>jobStatus[jobId].f = v\<close> on a record that a sweep has
  deleted throws a \<^verbatim>\<open>TypeError\<close>, which the \<^verbatim>\<open>catch\<close> block receives. A reply that
  does not belong to the current \<^verbatim>\<open>await\<close> changes nothing.
\<close>

fun processSavingsExport ::
  "string \<Rightarrow> string \<Rightarrow> worker_pc \<Rightarrow> reply \<Rightarrow> job_table \<Rightarrow> (string \<rightharpoonup> string) \<Rightarrow>
     job_table \<times> (string \<rightharpoonup> string) \<times> worker_pc" where
  "processSavingsExport org jobId AwaitName (NameReply (NameError m)) tbl fs =
     (catch_block tbl jobId m, fs, Finished)"
| "processSavingsExport org jobId AwaitName (NameReply (NameData n)) tbl fs =
     (case map_of tbl jobId of
        None \<Rightarrow>
          (catch_block tbl jobId ''Cannot set properties of undefined (setting 'orgName')'',
           fs, Finished)
      | Some j \<Rightarrow>
          (AList.update jobId (j\<lparr>orgName := Some (or_else n ''organization'')\<rparr>) tbl,
           fs, AwaitReport))"
| "processSavingsExport org jobId AwaitReport (ReportReply (ReportError m)) tbl fs =
     (catch_block tbl jobId m, fs, Finished)"
| "processSavingsExport org jobId AwaitReport (ReportReply (ReportData bytes now)) tbl fs =
     (tbl, fs, AwaitWrite (savings_export_id org now) bytes)"
| "processSavingsExport org jobId (AwaitWrite eid bytes) (WriteReply (WriteError m left)) tbl fs =
     (catch_block tbl jobId m,
      (case left of None \<Rightarrow> fs | Some part \<Rightarrow> fs(file_path eid \<mapsto> part)),
      Finished)"
| "processSavingsExport org jobId (AwaitWrite eid bytes) (WriteReply WriteOk) tbl fs =
     (case map_of tbl jobId of
        None \<Rightarrow>
          (catch_block tbl jobId ''Cannot set properties of undefined (setting 'status')'',
           fs(file_path eid \<mapsto> bytes), Finished)
      | Some j \<Rightarrow>
          (AList.update jobId (j\<lparr>status := ''completed'', exportId := Some eid\<rparr>) tbl,
           fs(file_path eid \<mapsto> bytes), Finished))"
| "processSavingsExport org jobId pc r tbl fs = (tbl, fs, pc)"

definition resume :: "server \<Rightarrow> nat \<Rightarrow> reply \<Rightarrow> server" where
  "resume s i r =
     (if i < length (workers s) then
        (let w = workers s ! i
         in case processSavingsExport (w_orgId w) (w_jobId w) (w_pc w) r (jobStatus s) (disk s) of
              (tbl, fs, pc) \<Rightarrow>
                s\<lparr>jobStatus := tbl, disk := fs, workers := (workers s)[i := w\<lparr>w_pc := pc\<rparr>]\<rparr>)
      else s)"

subsection \<open>Runs\<close>

datatype event =
    Start string nat nat
  | Status string nat
  | Download string
  | Resume nat reply
  | Transferred string send_reply

fun handle :: "server \<Rightarrow> event \<Rightarrow> server \<times> response" where
  "handle s (Start org now1 now2) = start s org now1 now2"
| "handle s (Status jobId now) = job_status s jobId now"
| "handle s (Download jobId) = download s jobId"
| "handle s (Resume i r) = (resume s i r, NoResponse)"
| "handle s (Transferred filePath r) = (sent s filePath r, NoResponse)"

fun final :: "server \<Rightarrow> event list \<Rightarrow> server" where
  "final s [] = s"
| "final s (e # es) = final (fst (handle s e)) es"

fun answers :: "server \<Rightarrow> event list \<Rightarrow> response list" where
  "answers s [] = []"
| "answers s (e # es) = snd (handle s e) # answers (fst (handle s e)) es"

text \<open>
  A start is fresh when no worker was ever spawned for the id it computes, that is,
  when no earlier start computed the same id.
\<close>

fun fresh :: "server \<Rightarrow> event \<Rightarrow> bool" where
  "fresh s (Start org now1 now2) = (savings_export_id org now1 \<notin> set (map w_jobId (workers s)))"
| "fresh s e = True"

text \<open>The ids that the starts of a run compute, in order.\<close>

fun started_ids :: "event list \<Rightarrow> string list" where
  "started_ids [] = []"
| "started_ids (Start org now1 now2 # es) = savings_export_id org now1 # started_ids es"
| "started_ids (e # es) = started_ids es"

subsection \<open>Auxiliary notions for the proofs\<close>

text \<open>What one pass of the sweep leaves of a table entry.\<close>

definition keep :: "nat \<Rightarrow> job option \<Rightarrow> job option" where
  "keep now v = (case v of None \<Rightarrow> None | Some j \<Rightarrow> if expired now j then None else Some j)"

text \<open>Truthiness of a field that holds a string or \<^verbatim>\<open>null\<close>: set and not empty.\<close>

definition non_empty :: "string option \<Rightarrow> bool" where
  "non_empty x = (case x of None \<Rightarrow> False | Some v \<Rightarrow> v \<noteq> [])"

text \<open>
  The record a worker at a given point expects to find under its job id when it is
  the only writer of that record.
\<close>

definition pending :: "job \<Rightarrow> bool" where
  "pending j = (status j = ''processing'' \<and> exportId j = None \<and> error j = None)"

fun shape :: "worker_pc \<Rightarrow> job \<Rightarrow> bool" where
  "shape Finished j =
     ((status j = ''completed'' \<and> non_empty (exportId j) \<and> error j = None) \<or>
      (status j = ''error'' \<and> exportId j = None \<and> non_empty (error j)))"
| "shape (AwaitWrite eid bytes) j = (eid \<noteq> [] \<and> pending j)"
| "shape pc j = pending j"

text \<open>
  What holds of every record in every run, fresh starts or not: the status is one of the
  three literals, and the field that goes with a terminal status is set.
\<close>

definition well_shaped :: "job \<Rightarrow> bool" where
  "well_shaped j =
     ((status j = ''processing'' \<or> status j = ''completed'' \<or> status j = ''error'') \<and>
      (status j = ''completed'' \<longrightarrow> non_empty (exportId j)) \<and>
      (status j = ''error'' \<longrightarrow> non_empty (error j)))"

definition named_export :: "worker_pc \<Rightarrow> bool" where
  "named_export pc = (case pc of AwaitWrite eid bytes \<Rightarrow> eid \<noteq> [] | _ \<Rightarrow> True)"

definition all_well_shaped :: "server \<Rightarrow> bool" where
  "all_well_shaped s =
     ((\<forall>k j. map_of (jobStatus s) k = Some j \<longrightarrow> well_shaped j) \<and>
      (\<forall>n < length (workers s). named_export (w_pc (workers s ! n))))"

definition keys_have_workers :: "server \<Rightarrow> bool" where
  "keys_have_workers s = (set (map fst (jobStatus s)) \<subseteq> set (map w_jobId (workers s)))"

text \<open>
  Job id \<open>k\<close> has at most one worker, and that worker finds under \<open>k\<close> the record
  it expects. Nothing is required of the other ids.
\<close>

definition sole_writer :: "server \<Rightarrow> string \<Rightarrow> bool" where
  "sole_writer s k =
     ((\<forall>n < length (workers s). \<forall>m < length (workers s).
         w_jobId (workers s ! n) = k \<longrightarrow> w_jobId (workers s ! m) = k \<longrightarrow> n = m) \<and>
      (\<forall>n < length (workers s). \<forall>j.
         w_jobId (workers s ! n) = k \<longrightarrow> map_of (jobStatus s) k = Some j \<longrightarrow>
           shape (w_pc (workers s ! n)) j))"

text \<open>
  An event is fresh for \<open>k\<close> unless it is a start that computes \<open>k\<close> when a worker
  for \<open>k\<close> exists already. The id \<open>k\<close> is computed once when it occurs at most once
  among the ids of the workers spawned so far and of the starts still to come.
\<close>

fun fresh_for :: "string \<Rightarrow> server \<Rightarrow> event \<Rightarrow> bool" where
  "fresh_for k s (Start org now1 now2) =
     (savings_export_id org now1 = k \<longrightarrow> k \<notin> set (map w_jobId (workers s)))"
| "fresh_for k s e = True"

definition computed_once :: "string \<Rightarrow> server \<Rightarrow> event list \<Rightarrow> bool" where
  "computed_once k s es = (count_list (map w_jobId (workers s) @ started_ids es) k \<le> 1)"

text \<open>Job \<open>k\<close> has no worker left that could write, and its record, if any, has status \<open>t\<close>.\<close>

definition settled :: "server \<Rightarrow> string \<Rightarrow> string \<Rightarrow> bool" where
  "settled s k t =
     (k \<in> set (map w_jobId (workers s)) \<and>
      (\<forall>n < length (workers s). w_jobId (workers s ! n) = k \<longrightarrow> w_pc (workers s ! n) = Finished) \<and>
      (\<forall>j. map_of (jobStatus s) k = Some j \<longrightarrow> status j = t))"

subsection \<open>Concrete runs\<close>

text \<open>Scenario 2 of the specification: organisation 42, named Acme, exported without failure.\<close>

definition acme_run :: "event list" where
  "acme_run =
     [Start ''42'' 1000 1000,
      Resume 0 (NameReply (NameData (Some ''Acme''))),
      Resume 0 (ReportReply (ReportData ''PK'' 2000)),
      Resume 0 (WriteReply WriteOk)]"

definition acme_job :: job where
  "acme_job =
     \<lparr>status = ''completed'', orgId = ''42'', exportId = Some ''savings-export-42-2000'',
      error = None, created = 1000, orgName = Some ''Acme''\<rparr>"

definition acme_state :: server where
  "acme_state =
     \<lparr>jobStatus = [(''savings-export-42-1000'', acme_job)],
      disk = [''./temp/savings-export-42-2000.zip'' \<mapsto> ''PK''],
      workers = [\<lparr>w_orgId = ''42'', w_jobId = ''savings-export-42-1000'', w_pc = Finished\<rparr>],
      sending = []\<rparr>"

text \<open>The state after the first event of that run: the job exists, its worker awaits the name.\<close>

definition started_job :: job where
  "started_job =
     \<lparr>status = ''processing'', orgId = ''42'', exportId = None, error = None,
      created = 1000, orgName = None\<rparr>"

definition started_state :: server where
  "started_state =
     \<lparr>jobStatus = [(''savings-export-42-1000'', started_job)],
      disk = Map.empty,
      workers = [\<lparr>w_orgId = ''42'', w_jobId = ''savings-export-42-1000'', w_pc = AwaitName\<rparr>],
      sending = []\<rparr>"

text \<open>The states after its second and third event: the worker awaits the report, then the write.\<close>

definition named_state :: server where
  "named_state =
     \<lparr>jobStatus = [(''savings-export-42-1000'', started_job\<lparr>orgName := Some ''Acme''\<rparr>)],
      disk = Map.empty,
      workers = [\<lparr>w_orgId = ''42'', w_jobId = ''savings-export-42-1000'', w_pc = AwaitReport\<rparr>],
      sending = []\<rparr>"

definition writing_state :: server where
  "writing_state =
     \<lparr>jobStatus = [(''savings-export-42-1000'', started_job\<lparr>orgName := Some ''Acme''\<rparr>)],
      disk = Map.empty,
      workers = [\<lparr>w_orgId = ''42'', w_jobId = ''savings-export-42-1000'',
                  w_pc = AwaitWrite ''savings-export-42-2000'' ''PK''\<rparr>],
      sending = []\<rparr>"

text \<open>The same run, followed by a download that is transferred and unlinked.\<close>

definition downloaded_run :: "event list" where
  "downloaded_run =
     acme_run @
     [Download ''savings-export-42-1000'',
      Transferred ''./temp/savings-export-42-2000.zip'' (Sent Unlinked)]"

text \<open>Two start requests for organisation 42 handled within the same millisecond.\<close>

definition same_ms_run :: "event list" where
  "same_ms_run =
     [Start ''42'' 1000 1000,
      Start ''42'' 1000 1000,
      Resume 0 (NameReply (NameData (Some ''Acme''))),
      Resume 0 (ReportReply (ReportData ''PK'' 2000)),
      Resume 0 (WriteReply WriteOk),
      Status ''savings-export-42-1000'' 2500,
      Resume 1 (NameReply (NameError ''socket hang up'')),
      Status ''savings-export-42-1000'' 2600]"

text \<open>The name lookup is rejected.\<close>

definition name_fails_run :: "event list" where
  "name_fails_run =
     [Start ''42'' 1000 1000,
      Resume 0 (NameReply (NameError ''Request failed with status code 500''))]"

text \<open>The lookup answers without a name; report and write succeed.\<close>

definition nameless_run :: "event list" where
  "nameless_run =
     [Start ''42'' 1000 1000,
      Resume 0 (NameReply (NameData None)),
      Resume 0 (ReportReply (ReportData ''PK'' 2000)),
      Resume 0 (WriteReply WriteOk)]"


text \<open>
  Two starts for organisation 7 within one millisecond, then the Acme run, whose worker
  is the third.
\<close>

definition mixed_run :: "event list" where
  "mixed_run =
     [Start ''7'' 500 500,
      Start ''7'' 500 500,
      Start ''42'' 1000 1000,
      Resume 2 (NameReply (NameData (Some ''Acme''))),
      Resume 2 (ReportReply (ReportData ''PK'' 2000)),
      Resume 2 (WriteReply WriteOk)]"

definition mixed_state :: server where
  "mixed_state =
     \<lparr>jobStatus =
        [(''savings-export-7-500'',
          \<lparr>status = ''processing'', orgId = ''7'', exportId = None, error = None,
           created = 500, orgName = None\<rparr>),
         (''savings-export-42-1000'', acme_job)],
      disk = [''./temp/savings-export-42-2000.zip'' \<mapsto> ''PK''],
      workers =
        [\<lparr>w_orgId = ''7'', w_jobId = ''savings-export-7-500'', w_pc = AwaitName\<rparr>,
         \<lparr>w_orgId = ''7'', w_jobId = ''savings-export-7-500'', w_pc = AwaitName\<rparr>,
         \<lparr>w_orgId = ''42'', w_jobId = ''savings-export-42-1000'', w_pc = Finished\<rparr>],
      sending = []\<rparr>"

text \<open>The Acme run, downloaded twice, the unlink after the first transfer failing.\<close>

definition unlink_fails_run :: "event list" where
  "unlink_fails_run =
     acme_run @
     [Download ''savings-export-42-1000'',
      Transferred ''./temp/savings-export-42-2000.zip'' (Sent UnlinkError),
      Download ''savings-export-42-1000'']"

section \<open>Properties of the operations\<close>

subsection \<open>Identifiers\<close>

lemma id_not_inherited: "savings_export_id org now \<notin> set object_prototype_keys"
  by (simp add: savings_export_id_def object_prototype_keys_def)

lemma digits_1000: "digits_of 1000 = ''1000''"
  by code_simp

lemma digits_2000: "digits_of 2000 = ''2000''"
  by code_simp

lemma id_1000: "savings_export_id ''42'' 1000 = ''savings-export-42-1000''"
  by (simp add: savings_export_id_def digits_1000)

lemma id_2000: "savings_export_id ''42'' 2000 = ''savings-export-42-2000''"
  by (simp add: savings_export_id_def digits_2000)

subsection \<open>The sweep, the catch block and one stretch of the worker\<close>

lemma keep_idem: "keep now (keep now v) = keep now v"
  by (simp add: keep_def split: option.splits)

lemma map_of_reap: "map_of (reap now x tbl) k = (if k = x then keep now (map_of tbl k) else map_of tbl k)"
  by (simp add: reap_def keep_def delete_conv' split: option.splits)

lemma map_of_fold_reap:
  "map_of (fold (reap now) ks tbl) k = (if k \<in> set ks then keep now (map_of tbl k) else map_of tbl k)"
proof (induction ks arbitrary: tbl)
  case Nil
  show ?case by simp
next
  case (Cons x xs)
  show ?case by (simp add: Cons.IH map_of_reap keep_idem)
qed

lemma map_of_sweep: "map_of (sweep now tbl) k = keep now (map_of tbl k)"
proof (cases "k \<in> set (map fst tbl)")
  case True
  then show ?thesis by (simp add: sweep_def map_of_fold_reap)
next
  case False
  then have "map_of tbl k = None" by (simp add: map_of_eq_None_iff)
  with False show ?thesis by (simp add: sweep_def map_of_fold_reap keep_def)
qed

lemma map_of_catch_block:
  "map_of (catch_block tbl k m) q =
     (if q = k then map_option (\<lambda>j. j\<lparr>status := ''error'', error := Some (or_else (Some m) ''Export failed'')\<rparr>) (map_of tbl k)
      else map_of tbl q)"
  by (simp add: catch_block_def update_conv' split: option.splits)

lemma or_else_msg: "or_else (Some m) ''Export failed'' \<noteq> []"
  by (simp add: or_else_def)

lemma id_non_empty: "savings_export_id org now \<noteq> []"
  by (simp add: savings_export_id_def)

lemma process_other:
  "processSavingsExport org k pc r tbl fs = (tbl', fs', pc') \<Longrightarrow> q \<noteq> k \<Longrightarrow>
     map_of tbl' q = map_of tbl q"
  by (induction org k pc r tbl fs rule: processSavingsExport.induct)
     (auto simp: map_of_catch_block update_conv' split: option.splits)

lemma process_absent:
  "processSavingsExport org k pc r tbl fs = (tbl', fs', pc') \<Longrightarrow> map_of tbl k = None \<Longrightarrow>
     map_of tbl' k = None"
  by (induction org k pc r tbl fs rule: processSavingsExport.induct)
     (auto simp: map_of_catch_block update_conv' split: option.splits)

lemma process_shape:
  "processSavingsExport org k pc r tbl fs = (tbl', fs', pc') \<Longrightarrow> map_of tbl k = Some j \<Longrightarrow>
     shape pc j \<Longrightarrow> \<exists>j'. map_of tbl' k = Some j' \<and> shape pc' j'"
  by (induction org k pc r tbl fs rule: processSavingsExport.induct)
     (auto simp: map_of_catch_block update_conv' pending_def non_empty_def or_else_msg id_non_empty)

lemma process_finished: "processSavingsExport org k Finished r tbl fs = (tbl, fs, Finished)"
  by (induction org k Finished r tbl fs rule: processSavingsExport.induct) simp_all

lemma resume_eq:
  "i < length (workers s) \<Longrightarrow>
   processSavingsExport (w_orgId (workers s ! i)) (w_jobId (workers s ! i)) (w_pc (workers s ! i)) r
       (jobStatus s) (disk s) = (tbl, fs, pc) \<Longrightarrow>
   resume s i r = s\<lparr>jobStatus := tbl, disk := fs, workers := (workers s)[i := (workers s ! i)\<lparr>w_pc := pc\<rparr>]\<rparr>"
  by (simp add: resume_def Let_def)

lemma resume_out_of_range: "\<not> i < length (workers s) \<Longrightarrow> resume s i r = s"
  by (simp add: resume_def)

lemma resume_ids: "map w_jobId (workers (resume s i r)) = map w_jobId (workers s)"
proof (cases "i < length (workers s)")
  case False
  then show ?thesis by (simp add: resume_out_of_range)
next
  case True
  obtain tbl fs pc where p:
    "processSavingsExport (w_orgId (workers s ! i)) (w_jobId (workers s ! i)) (w_pc (workers s ! i)) r
       (jobStatus s) (disk s) = (tbl, fs, pc)"
    using prod_cases3 by blast
  show ?thesis
    by (simp add: resume_eq [OF True p] map_update list_update_same_conv True)
qed

subsection \<open>Fields the handlers leave alone\<close>

lemma download_fields:
  "jobStatus (fst (download s k)) = jobStatus s \<and> workers (fst (download s k)) = workers s
   \<and> disk (fst (download s k)) = disk s"
  by (simp add: download_def Let_def split: js_value.splits option.splits)

lemma sent_fields: "jobStatus (sent s p r) = jobStatus s \<and> workers (sent s p r) = workers s"
  by (simp add: sent_def Let_def split: send_reply.splits unlink_reply.splits)

lemma job_status_fields:
  "jobStatus (fst (job_status s k now)) = sweep now (jobStatus s)
   \<and> workers (fst (job_status s k now)) = workers s
   \<and> disk (fst (job_status s k now)) = disk s"
  by (simp add: job_status_def Let_def split: js_value.splits)

subsection \<open>Every key of the table belongs to a spawned worker\<close>

lemma keys_have_workers_iff:
  "keys_have_workers s \<longleftrightarrow>
     (\<forall>k. map_of (jobStatus s) k \<noteq> None \<longrightarrow> k \<in> set (map w_jobId (workers s)))"
  unfolding keys_have_workers_def by (auto simp: map_of_eq_None_iff)

lemma settled_cong:
  "jobStatus s' = jobStatus s \<Longrightarrow> workers s' = workers s \<Longrightarrow> settled s' k t = settled s k t"
  by (simp add: settled_def)

lemma keys_have_workers_cong:
  "jobStatus s' = jobStatus s \<Longrightarrow> workers s' = workers s \<Longrightarrow>
     keys_have_workers s' = keys_have_workers s"
  by (simp add: keys_have_workers_def)

lemma keys_have_workers_start: "keys_have_workers s \<Longrightarrow> keys_have_workers (fst (start s org t1 t2))"
  by (auto simp: keys_have_workers_iff start_def Let_def update_conv')

lemma keys_have_workers_status:
  "keys_have_workers s \<Longrightarrow> keys_have_workers (fst (job_status s k now))"
  by (auto simp: keys_have_workers_iff job_status_fields map_of_sweep keep_def split: option.splits)

lemma keys_have_workers_resume: "keys_have_workers s \<Longrightarrow> keys_have_workers (resume s i r)"
proof (cases "i < length (workers s)")
  case False
  assume "keys_have_workers s"
  with False show ?thesis by (simp add: resume_out_of_range)
next
  case True
  assume inv: "keys_have_workers s"
  obtain tbl fs pc where p:
    "processSavingsExport (w_orgId (workers s ! i)) (w_jobId (workers s ! i)) (w_pc (workers s ! i)) r
       (jobStatus s) (disk s) = (tbl, fs, pc)"
    using prod_cases3 by blast
  have "map_of (jobStatus s) q \<noteq> None" if "map_of tbl q \<noteq> None" for q
  proof (cases "q = w_jobId (workers s ! i)")
    case True
    show ?thesis
    proof
      assume "map_of (jobStatus s) q = None"
      with True process_absent [OF p] have "map_of tbl q = None" by simp
      with that show False by simp
    qed
  next
    case False
    with that process_other [OF p False] show ?thesis by simp
  qed
  moreover have "jobStatus (resume s i r) = tbl" by (simp add: resume_eq [OF True p])
  ultimately show ?thesis
    using inv unfolding keys_have_workers_iff resume_ids by auto
qed

lemma keys_have_workers_step: "keys_have_workers s \<Longrightarrow> keys_have_workers (fst (handle s e))"
  by (cases e)
     (simp_all add: keys_have_workers_start keys_have_workers_status keys_have_workers_resume
        keys_have_workers_cong [OF conjunct1 [OF download_fields] conjunct1 [OF conjunct2 [OF download_fields]]]
        keys_have_workers_cong [OF conjunct1 [OF sent_fields] conjunct2 [OF sent_fields]])

lemma keys_have_workers_run: "keys_have_workers s \<Longrightarrow> keys_have_workers (final s es)"
  by (induction es arbitrary: s) (simp_all add: keys_have_workers_step)

lemma keys_have_workers_init: "keys_have_workers init"
  by (simp add: keys_have_workers_def init_def)

subsection \<open>A settled job stays settled\<close>

lemma settled_step:
  assumes st: "settled s k t" and fr: "fresh_for k s e"
  shows "settled (fst (handle s e)) k t"
proof (cases e)
  case (Start org t1 t2)
  let ?k0 = "savings_export_id org t1"
  from st have "k \<in> set (map w_jobId (workers s))" by (simp add: settled_def)
  with fr Start have ne: "k \<noteq> ?k0" by auto
  have "settled (fst (start s org t1 t2)) k t"
    unfolding settled_def
  proof (intro conjI allI impI)
    show "k \<in> set (map w_jobId (workers (fst (start s org t1 t2))))"
      using st by (simp add: settled_def start_def Let_def)
  next
    fix n
    assume n: "n < length (workers (fst (start s org t1 t2)))"
      and k: "w_jobId (workers (fst (start s org t1 t2)) ! n) = k"
    show "w_pc (workers (fst (start s org t1 t2)) ! n) = Finished"
    proof (cases "n < length (workers s)")
      case True
      with k st show ?thesis by (simp add: settled_def start_def Let_def nth_append)
    next
      case False
      with n have "n = length (workers s)" by (simp add: start_def Let_def)
      with k ne show ?thesis by (simp add: start_def Let_def)
    qed
  next
    fix j
    assume "map_of (jobStatus (fst (start s org t1 t2))) k = Some j"
    with ne have "map_of (jobStatus s) k = Some j" by (simp add: start_def Let_def update_conv')
    with st show "status j = t" by (simp add: settled_def)
  qed
  with Start show ?thesis by simp
next
  case (Status q now)
  have sub: "map_of (jobStatus s) k = Some j" if "map_of (sweep now (jobStatus s)) k = Some j" for j
    using that by (simp add: map_of_sweep keep_def split: option.splits if_splits)
  have a: "jobStatus (fst (job_status s q now)) = sweep now (jobStatus s)"
    "workers (fst (job_status s q now)) = workers s"
    by (simp_all add: job_status_fields)
  have "settled (fst (job_status s q now)) k t"
    using st sub unfolding settled_def a by blast
  with Status show ?thesis by simp
next
  case (Download q)
  with st settled_cong [of "fst (download s q)" s] show ?thesis
    by (simp add: download_fields)
next
  case (Transferred p r)
  with st settled_cong [of "sent s p r" s] show ?thesis
    by (simp add: sent_fields)
next
  case (Resume i r)
  have "settled (resume s i r) k t"
  proof (cases "i < length (workers s)")
    case False
    with st show ?thesis by (simp add: resume_out_of_range)
  next
    case True
    let ?w = "workers s ! i"
    obtain tbl fs pc where p:
      "processSavingsExport (w_orgId ?w) (w_jobId ?w) (w_pc ?w) r (jobStatus s) (disk s) = (tbl, fs, pc)"
      using prod_cases3 by blast
    note eq = resume_eq [OF True p]
    show ?thesis
    proof (cases "w_jobId ?w = k")
      case mine: True
      with st True have "w_pc ?w = Finished" by (simp add: settled_def)
      with p have "tbl = jobStatus s" "pc = Finished" by (simp_all add: process_finished)
      moreover from \<open>w_pc ?w = Finished\<close> \<open>pc = Finished\<close> have "?w\<lparr>w_pc := pc\<rparr> = ?w" by simp
      ultimately have "jobStatus (resume s i r) = jobStatus s" "workers (resume s i r) = workers s"
        by (simp_all add: eq)
      with st settled_cong [of "resume s i r" s] show ?thesis by simp
    next
      case other: False
      then have "k \<noteq> w_jobId ?w" by simp
      from process_other [OF p this] have tbl: "map_of tbl k = map_of (jobStatus s) k" .
      have ids: "map w_jobId (workers (resume s i r)) = map w_jobId (workers s)"
        by (rule resume_ids)
      show ?thesis
        unfolding settled_def
      proof (intro conjI allI impI)
        show "k \<in> set (map w_jobId (workers (resume s i r)))"
          using st unfolding ids by (simp add: settled_def)
      next
        fix n
        assume n: "n < length (workers (resume s i r))"
          and k: "w_jobId (workers (resume s i r) ! n) = k"
        from n have n': "n < length (workers s)" by (simp add: eq)
        have "n \<noteq> i"
        proof
          assume "n = i"
          with k True have "w_jobId ?w = k" by (simp add: eq)
          with other show False by simp
        qed
        with n' have w: "workers (resume s i r) ! n = workers s ! n" by (simp add: eq)
        with k have "w_jobId (workers s ! n) = k" by simp
        with st n' have "w_pc (workers s ! n) = Finished" by (simp add: settled_def)
        with w show "w_pc (workers (resume s i r) ! n) = Finished" by simp
      next
        fix j
        assume "map_of (jobStatus (resume s i r)) k = Some j"
        with tbl have "map_of (jobStatus s) k = Some j" by (simp add: eq)
        with st show "status j = t" by (simp add: settled_def)
      qed
    qed
  qed
  with Resume show ?thesis by simp
qed

subsection \<open>Runs\<close>

lemma final_append: "final s (es1 @ es2) = final (final s es1) es2"
  by (induction es1 arbitrary: s) simp_all

subsection \<open>What the handlers do to a record that exists\<close>

lemma process_keeps:
  "processSavingsExport org k pc r tbl fs = (tbl', fs', pc') \<Longrightarrow> map_of tbl q \<noteq> None \<Longrightarrow>
     map_of tbl' q \<noteq> None"
  by (induction org k pc r tbl fs rule: processSavingsExport.induct)
     (auto simp: map_of_catch_block update_conv' split: option.splits if_splits)

lemma resume_keeps: "map_of (jobStatus s) q \<noteq> None \<Longrightarrow> map_of (jobStatus (resume s i r)) q \<noteq> None"
proof (cases "i < length (workers s)")
  case False
  assume "map_of (jobStatus s) q \<noteq> None"
  with False show ?thesis by (simp add: resume_def)
next
  case True
  assume q: "map_of (jobStatus s) q \<noteq> None"
  obtain tbl' fs' pc' where p:
    "processSavingsExport (w_orgId (workers s ! i)) (w_jobId (workers s ! i)) (w_pc (workers s ! i)) r
       (jobStatus s) (disk s) = (tbl', fs', pc')"
    using prod_cases3 by blast
  from process_keeps [OF p q] True p show ?thesis by (simp add: resume_def Let_def)
qed

lemma start_keeps:
  "map_of (jobStatus s) q \<noteq> None \<Longrightarrow> map_of (jobStatus (fst (start s org t1 t2))) q \<noteq> None"
  by (simp add: start_def Let_def update_conv')

lemma only_status_removes:
  assumes "\<forall>q now. e \<noteq> Status q now" and "map_of (jobStatus s) k \<noteq> None"
  shows "map_of (jobStatus (fst (handle s e))) k \<noteq> None"
  using assms by (cases e) (simp_all add: start_keeps resume_keeps download_fields sent_fields)

lemma download_serves:
  assumes "map_of (jobStatus s) jobId = Some j"
    and "exportId j = Some eid"
    and "eid \<noteq> []"
    and "disk s (file_path eid) = Some bytes"
  shows "download s jobId =
           (s\<lparr>sending := sending s @ [file_path eid]\<rparr>,
            Attachment (file_path eid) (or_else (orgName j) ''organization'' @ ''-savings-analysis.zip''))"
  using assms by (simp add: download_def js_get_def Let_def)

lemma download_after_unlink:
  assumes "map_of (jobStatus s) jobId = Some j"
    and "exportId j = Some eid"
    and "eid \<noteq> []"
    and "disk s (file_path eid) = None"
  shows "download s jobId = (s, NotFound ''Export file not found'')"
  using assms by (simp add: download_def js_get_def Let_def)

lemma sent_unlinked:
  "p \<in> set (sending s) \<Longrightarrow>
     sent s p (Sent Unlinked) = s\<lparr>sending := remove1 p (sending s), disk := (disk s)(p := None)\<rparr>"
  by (simp add: sent_def Let_def)

subsection \<open>The concrete runs, evaluated\<close>

lemmas run_defs = init_def start_def resume_def job_status_def download_def sent_def
  js_get_def sweep_def reap_def expired_def catch_block_def or_else_def
  file_path_def tempDir_def object_prototype_keys_def id_1000 id_2000 Let_def

lemma final_started: "final init [Start ''42'' 1000 1000] = started_state"
  by (simp add: started_state_def started_job_def run_defs)

lemma final_named: "final init (take 2 acme_run) = named_state"
  by (simp add: acme_run_def named_state_def started_job_def run_defs)

lemma final_writing: "final init (take 3 acme_run) = writing_state"
  by (simp add: acme_run_def writing_state_def started_job_def run_defs)

lemma final_acme_run: "final init acme_run = acme_state"
  by (simp add: acme_run_def acme_state_def acme_job_def run_defs)

lemma answers_downloaded_run:
  "answers init downloaded_run =
     [StartJson ''processing'' ''Export started. You will be notified when complete.''
        ''savings-export-42-1000'',
      NoResponse, NoResponse, NoResponse,
      Attachment ''./temp/savings-export-42-2000.zip'' ''Acme-savings-analysis.zip'',
      NoResponse]"
  by (simp add: downloaded_run_def acme_run_def run_defs)

lemma final_downloaded_run: "final init downloaded_run = acme_state\<lparr>disk := Map.empty\<rparr>"
  by (simp add: downloaded_run_def acme_run_def acme_state_def acme_job_def run_defs)

lemma answers_same_ms_run:
  "answers init same_ms_run =
     [StartJson ''processing'' ''Export started. You will be notified when complete.''
        ''savings-export-42-1000'',
      StartJson ''processing'' ''Export started. You will be notified when complete.''
        ''savings-export-42-1000'',
      NoResponse, NoResponse, NoResponse,
      Json (JobRef acme_job),
      NoResponse,
      Json (JobRef (acme_job\<lparr>status := ''error'', error := Some ''socket hang up''\<rparr>))]"
  by (simp add: same_ms_run_def acme_job_def run_defs)

lemma final_name_fails_run:
  "final init name_fails_run =
     \<lparr>jobStatus = [(''savings-export-42-1000'',
         \<lparr>status = ''error'', orgId = ''42'', exportId = None,
          error = Some ''Request failed with status code 500'', created = 1000, orgName = None\<rparr>)],
      disk = Map.empty,
      workers = [\<lparr>w_orgId = ''42'', w_jobId = ''savings-export-42-1000'', w_pc = Finished\<rparr>],
      sending = []\<rparr>"
  by (simp add: name_fails_run_def run_defs)


lemma final_nameless_run:
  "final init nameless_run =
     acme_state\<lparr>jobStatus := [(''savings-export-42-1000'', acme_job\<lparr>orgName := Some ''organization''\<rparr>)]\<rparr>"
  by (simp add: nameless_run_def acme_state_def acme_job_def run_defs)

subsection \<open>The id template is injective\<close>

text \<open>
  The decimal digits hold no dash, so the last dash of an id separates the organisation
  from the clock reading: two starts compute the same id exactly when they are for the
  same organisation and read the same millisecond.
\<close>

lemma digit_inject:
  "a < 10 \<Longrightarrow> b < 10 \<Longrightarrow> ''0123456789'' ! a = ''0123456789'' ! b \<Longrightarrow> a = b"
proof -
  assume "a < 10" "b < 10" "''0123456789'' ! a = ''0123456789'' ! b"
  moreover have "distinct ''0123456789''" by simp
  ultimately show "a = b" by (simp add: nth_eq_iff_index_eq)
qed

lemma digit_not_dash: "a < 10 \<Longrightarrow> ''0123456789'' ! a \<noteq> CHR ''-''"
proof -
  assume "a < 10"
  then have "''0123456789'' ! a \<in> set ''0123456789''" by (simp only: nth_mem length_Cons list.size)
  then show ?thesis by auto
qed

lemma digits_of_no_dash: "CHR ''-'' \<notin> set (digits_of n)"
proof (induction n rule: digits_of.induct)
  case (1 n)
  show ?case
  proof (cases "n < 10")
    case True
    with digit_not_dash [OF True] show ?thesis by (subst digits_of.simps) auto
  next
    case False
    have "n mod 10 < 10" by simp
    from digit_not_dash [OF this] False "1.IH" show ?thesis
      by (subst digits_of.simps) auto
  qed
qed

lemma digits_of_not_Nil: "digits_of n \<noteq> []"
  by (subst digits_of.simps) simp

lemma digits_of_long: "\<not> n < 10 \<Longrightarrow> 2 \<le> length (digits_of n)"
proof -
  assume "\<not> n < 10"
  moreover have "1 \<le> length (digits_of (n div 10))"
    using digits_of_not_Nil [of "n div 10"] by (cases "digits_of (n div 10)") simp_all
  ultimately show ?thesis by (subst digits_of.simps) simp
qed

lemma digits_of_short: "n < 10 \<Longrightarrow> length (digits_of n) = 1"
  by (subst digits_of.simps) simp

lemma digits_of_inject: "digits_of n = digits_of m \<Longrightarrow> n = m"
proof (induction n arbitrary: m rule: digits_of.induct)
  case (1 n)
  show ?case
  proof (cases "n < 10")
    case n: True
    show ?thesis
    proof (cases "m < 10")
      case True
      from "1.prems" n True have "''0123456789'' ! n = ''0123456789'' ! m"
        by (simp add: digits_of.simps [of n] digits_of.simps [of m])
      from digit_inject [OF n True this] show ?thesis .
    next
      case False
      from "1.prems" have "length (digits_of n) = length (digits_of m)" by simp
      with digits_of_long [OF False] digits_of_short [OF n] show ?thesis by simp
    qed
  next
    case n: False
    show ?thesis
    proof (cases "m < 10")
      case True
      from "1.prems" have "length (digits_of n) = length (digits_of m)" by simp
      with digits_of_long [OF n] digits_of_short [OF True] show ?thesis by simp
    next
      case False
      from "1.prems" n False
      have eq: "digits_of (n div 10) = digits_of (m div 10)"
        and last: "''0123456789'' ! (n mod 10) = ''0123456789'' ! (m mod 10)"
        by (simp_all add: digits_of.simps [of n] digits_of.simps [of m])
      from "1.IH" [OF n eq] have d: "n div 10 = m div 10" .
      have "n mod 10 < 10" "m mod 10 < 10" by simp_all
      from digit_inject [OF this last] have "n mod 10 = m mod 10" .
      with d show ?thesis by (metis div_mult_mod_eq)
    qed
  qed
qed

lemma split_at_last_dash:
  assumes "xs @ CHR ''-'' # ds = ys @ CHR ''-'' # es"
    and "CHR ''-'' \<notin> set ds" and "CHR ''-'' \<notin> set es"
  shows "xs = ys \<and> ds = es"
proof -
  from assms(1) have "rev (xs @ CHR ''-'' # ds) = rev (ys @ CHR ''-'' # es)" by simp
  then have r: "rev ds @ CHR ''-'' # rev xs = rev es @ CHR ''-'' # rev ys" by simp
  have tw: "takeWhile (\<lambda>c. c \<noteq> CHR ''-'') (rev zs @ CHR ''-'' # ws) = rev zs"
    if "CHR ''-'' \<notin> set zs" for zs ws
  proof -
    have "takeWhile (\<lambda>c. c \<noteq> CHR ''-'') (rev zs @ CHR ''-'' # ws) =
        rev zs @ takeWhile (\<lambda>c. c \<noteq> CHR ''-'') (CHR ''-'' # ws)"
      by (rule takeWhile_append2) (use that in auto)
    then show ?thesis by simp
  qed
  from tw [OF assms(2), of "rev xs"] tw [OF assms(3), of "rev ys"] r
  have "rev ds = rev es" by simp
  with r show ?thesis by simp
qed

lemma savings_export_id_inject:
  "savings_export_id org1 t1 = savings_export_id org2 t2 \<longleftrightarrow> org1 = org2 \<and> t1 = t2"
proof
  assume "savings_export_id org1 t1 = savings_export_id org2 t2"
  then have "org1 @ CHR ''-'' # digits_of t1 = org2 @ CHR ''-'' # digits_of t2"
    by (simp add: savings_export_id_def)
  from split_at_last_dash [OF this digits_of_no_dash digits_of_no_dash]
  show "org1 = org2 \<and> t1 = t2" by (auto dest: digits_of_inject)
qed simp

lemma started_ids_run:
  "map w_jobId (workers (final s es)) = map w_jobId (workers s) @ started_ids es"
proof (induction es arbitrary: s)
  case Nil
  show ?case by simp
next
  case (Cons e es)
  show ?case
    by (cases e)
       (simp_all add: Cons.IH start_def Let_def job_status_fields download_fields resume_ids
          sent_fields)
qed

lemma fresh_iff:
  "fresh (final init es) (Start org now1 now2) \<longleftrightarrow> savings_export_id org now1 \<notin> set (started_ids es)"
  by (simp add: started_ids_run init_def)

subsection \<open>Every record has one of the three shapes\<close>

text \<open>
  This holds in every run, also when starts collide. For an id that is not the name of
  an inherited member, a status query therefore answers Not-Found or a record whose
  status is \<^verbatim>\<open>processing\<close>, \<^verbatim>\<open>completed\<close> with an export id, or \<^verbatim>\<open>error\<close> with a
  message.
\<close>

lemma well_shaped_orgName: "well_shaped (j\<lparr>orgName := x\<rparr>) = well_shaped j"
  by (simp add: well_shaped_def)

lemma well_shaped_completed:
  "eid \<noteq> [] \<Longrightarrow> well_shaped (j\<lparr>status := ''completed'', exportId := Some eid\<rparr>)"
  by (simp add: well_shaped_def non_empty_def)

lemma well_shaped_error:
  "well_shaped (j\<lparr>status := ''error'', error := Some (or_else (Some m) ''Export failed'')\<rparr>)"
  by (simp add: well_shaped_def non_empty_def or_else_msg)

lemma update_well_shaped:
  assumes "\<forall>q j. map_of tbl q = Some j \<longrightarrow> well_shaped j" and "well_shaped v"
  shows "\<forall>q j. map_of (AList.update k v tbl) q = Some j \<longrightarrow> well_shaped j"
  using assms by (auto simp: update_conv')

lemma catch_block_well_shaped:
  assumes "\<forall>q j. map_of tbl q = Some j \<longrightarrow> well_shaped j"
  shows "\<forall>q j. map_of (catch_block tbl k m) q = Some j \<longrightarrow> well_shaped j"
proof (cases "map_of tbl k")
  case None
  with assms show ?thesis by (simp add: catch_block_def)
next
  case (Some j0)
  from update_well_shaped [OF assms well_shaped_error] Some show ?thesis
    by (simp add: catch_block_def)
qed

lemma process_well_shaped:
  assumes p: "processSavingsExport org k pc r tbl fs = (tbl', fs', pc')"
    and t: "\<forall>q j. map_of tbl q = Some j \<longrightarrow> well_shaped j"
    and n: "named_export pc"
  shows "(\<forall>q j. map_of tbl' q = Some j \<longrightarrow> well_shaped j) \<and> named_export pc'"
proof -
  note c = catch_block_well_shaped [OF t]
  have u: "\<forall>q j. map_of (AList.update k v tbl) q = Some j \<longrightarrow> well_shaped j"
    if "well_shaped v" for v
    using update_well_shaped [OF t that] .
  have same: "(\<forall>q j. map_of tbl q = Some j \<longrightarrow> well_shaped j) \<and> named_export pc"
    using t n by simp
  show ?thesis
  proof (cases pc)
    case AwaitName
    show ?thesis
    proof (cases r)
      case (NameReply x)
      show ?thesis
      proof (cases x)
        case (NameError m)
        with p AwaitName NameReply c show ?thesis by (auto simp: named_export_def)
      next
        case (NameData v)
        show ?thesis
        proof (cases "map_of tbl k")
          case None
          with p AwaitName NameReply NameData c show ?thesis by (auto simp: named_export_def)
        next
          case (Some j0)
          with t have "well_shaped j0" by blast
          then have "well_shaped (j0\<lparr>orgName := Some (or_else v ''organization'')\<rparr>)"
            by (simp add: well_shaped_orgName)
          from u [OF this] p AwaitName NameReply NameData Some show ?thesis
            by (auto simp: named_export_def)
        qed
      qed
    next
      case (ReportReply x)
      with p AwaitName same show ?thesis by auto
    next
      case (WriteReply x)
      with p AwaitName same show ?thesis by auto
    qed
  next
    case AwaitReport
    show ?thesis
    proof (cases r)
      case (ReportReply x)
      show ?thesis
      proof (cases x)
        case (ReportError m)
        with p AwaitReport ReportReply c show ?thesis by (auto simp: named_export_def)
      next
        case (ReportData bytes now)
        with p AwaitReport ReportReply t show ?thesis
          by (auto simp: named_export_def id_non_empty)
      qed
    next
      case (NameReply x)
      with p AwaitReport same show ?thesis by auto
    next
      case (WriteReply x)
      with p AwaitReport same show ?thesis by auto
    qed
  next
    case (AwaitWrite eid bytes)
    with n have eid: "eid \<noteq> []" by (simp add: named_export_def)
    show ?thesis
    proof (cases r)
      case (WriteReply x)
      show ?thesis
      proof (cases x)
        case (WriteError m left)
        with p AwaitWrite WriteReply c show ?thesis by (auto simp: named_export_def)
      next
        case WriteOk
        show ?thesis
        proof (cases "map_of tbl k")
          case None
          with p AwaitWrite WriteReply WriteOk c show ?thesis by (auto simp: named_export_def)
        next
          case (Some j0)
          from u [OF well_shaped_completed [OF eid, of j0]] p AwaitWrite WriteReply WriteOk Some
          show ?thesis by (auto simp: named_export_def)
        qed
      qed
    next
      case (NameReply x)
      with p AwaitWrite same show ?thesis by auto
    next
      case (ReportReply x)
      with p AwaitWrite same show ?thesis by auto
    qed
  next
    case Finished
    with p same show ?thesis by (simp add: process_finished)
  qed
qed

lemma all_well_shaped_init: "all_well_shaped init"
  by (simp add: all_well_shaped_def init_def)

lemma all_well_shaped_step:
  assumes inv: "all_well_shaped s"
  shows "all_well_shaped (fst (handle s e))"
proof (cases e)
  case (Start org t1 t2)
  have rec: "well_shaped \<lparr>status = ''processing'', orgId = org, exportId = None, error = None,
      created = t2, orgName = None\<rparr>"
    by (simp add: well_shaped_def)
  from inv have "\<forall>q j. map_of (jobStatus s) q = Some j \<longrightarrow> well_shaped j"
    by (simp add: all_well_shaped_def)
  from update_well_shaped [OF this rec]
  have t: "\<forall>q j. map_of (jobStatus (fst (start s org t1 t2))) q = Some j \<longrightarrow> well_shaped j"
    by (simp add: start_def Let_def)
  have "named_export (w_pc (workers (fst (start s org t1 t2)) ! n))"
    if "n < length (workers (fst (start s org t1 t2)))" for n
  proof (cases "n < length (workers s)")
    case True
    with inv show ?thesis by (simp add: start_def Let_def nth_append all_well_shaped_def)
  next
    case False
    with that have "n = length (workers s)" by (simp add: start_def Let_def)
    then show ?thesis by (simp add: start_def Let_def named_export_def)
  qed
  with t have "all_well_shaped (fst (start s org t1 t2))"
    unfolding all_well_shaped_def by blast
  with Start show ?thesis by simp
next
  case (Status k now)
  have sub: "map_of (jobStatus s) q = Some j" if "map_of (sweep now (jobStatus s)) q = Some j" for q j
    using that by (simp add: map_of_sweep keep_def split: option.splits if_splits)
  have a: "jobStatus (fst (job_status s k now)) = sweep now (jobStatus s)"
    "workers (fst (job_status s k now)) = workers s"
    by (simp_all add: job_status_fields)
  have "all_well_shaped (fst (job_status s k now))"
    using inv sub unfolding all_well_shaped_def a by blast
  with Status show ?thesis by simp
next
  case (Download k)
  from inv have "all_well_shaped (fst (download s k))"
    by (simp add: all_well_shaped_def download_fields)
  with Download show ?thesis by simp
next
  case (Transferred p r)
  from inv have "all_well_shaped (sent s p r)"
    by (simp add: all_well_shaped_def sent_fields)
  with Transferred show ?thesis by simp
next
  case (Resume i r)
  have "all_well_shaped (resume s i r)"
  proof (cases "i < length (workers s)")
    case False
    with inv show ?thesis by (simp add: resume_out_of_range)
  next
    case True
    let ?w = "workers s ! i"
    obtain tbl fs pc where p:
      "processSavingsExport (w_orgId ?w) (w_jobId ?w) (w_pc ?w) r (jobStatus s) (disk s) = (tbl, fs, pc)"
      using prod_cases3 by blast
    from inv True have "\<forall>q j. map_of (jobStatus s) q = Some j \<longrightarrow> well_shaped j"
      and "named_export (w_pc ?w)"
      by (simp_all add: all_well_shaped_def)
    from process_well_shaped [OF p this]
    have t: "\<forall>q j. map_of tbl q = Some j \<longrightarrow> well_shaped j" and n: "named_export pc" by simp_all
    have "named_export (w_pc (workers (resume s i r) ! m))"
      if "m < length (workers (resume s i r))" for m
    proof (cases "m = i")
      case True
      with \<open>i < length (workers s)\<close> n show ?thesis by (simp add: resume_eq [OF _ p])
    next
      case False
      with that inv \<open>i < length (workers s)\<close> show ?thesis
        by (simp add: resume_eq [OF _ p] all_well_shaped_def)
    qed
    moreover have "jobStatus (resume s i r) = tbl" by (simp add: resume_eq [OF True p])
    ultimately show ?thesis using t unfolding all_well_shaped_def by simp
  qed
  with Resume show ?thesis by simp
qed

lemma all_well_shaped_run: "all_well_shaped s \<Longrightarrow> all_well_shaped (final s es)"
  by (induction es arbitrary: s) (simp_all add: all_well_shaped_step)

lemma status_answers:
  assumes "k \<notin> set object_prototype_keys"
  shows "snd (job_status (final init es) k now) = NotFound ''Job not found''
         \<or> (\<exists>j. snd (job_status (final init es) k now) = Json (JobRef j) \<and> well_shaped j)"
proof -
  from all_well_shaped_run [OF all_well_shaped_init, of es]
  have "all_well_shaped (fst (job_status (final init es) k now))"
    using all_well_shaped_step [of "final init es" "Status k now"] by simp
  then have "well_shaped j"
    if "map_of (sweep now (jobStatus (final init es))) k = Some j" for j
    using that by (simp add: all_well_shaped_def job_status_fields)
  with assms show ?thesis
    by (auto simp: job_status_def Let_def js_get_def split: option.splits)
qed

subsection \<open>One writer for a job id that is computed once\<close>

lemma sole_writer_eq:
  "jobStatus s' = jobStatus s \<Longrightarrow> workers s' = workers s \<Longrightarrow> sole_writer s' k = sole_writer s k"
  by (simp add: sole_writer_def)

lemma sole_writer_init: "sole_writer init k"
  by (simp add: sole_writer_def init_def)

lemma sole_writer_start:
  assumes inv: "sole_writer s k"
    and new: "savings_export_id org t1 = k \<longrightarrow> k \<notin> set (map w_jobId (workers s))"
  shows "sole_writer (fst (start s org t1 t2)) k"
proof -
  let ?k0 = "savings_export_id org t1"
  let ?s' = "fst (start s org t1 t2)"
  have len: "length (workers ?s') = Suc (length (workers s))" by (simp add: start_def Let_def)
  have old: "workers ?s' ! n = workers s ! n" if "n < length (workers s)" for n
    using that by (simp add: start_def Let_def nth_append)
  have new_id: "w_jobId (workers ?s' ! length (workers s)) = ?k0"
    and new_pc: "w_pc (workers ?s' ! length (workers s)) = AwaitName"
    by (simp_all add: start_def Let_def)
  have tbl: "map_of (jobStatus ?s') q = (if q = ?k0 then Some \<lparr>status = ''processing'', orgId = org,
      exportId = None, error = None, created = t2, orgName = None\<rparr> else map_of (jobStatus s) q)" for q
    by (simp add: start_def Let_def update_conv')
  show ?thesis
  proof (cases "?k0 = k")
    case True
    with new have none: "k \<notin> set (map w_jobId (workers s))" by simp
    have no_old: "w_jobId (workers s ! n) \<noteq> k" if "n < length (workers s)" for n
    proof
      assume "w_jobId (workers s ! n) = k"
      with that have "k \<in> set (map w_jobId (workers s))" by (metis length_map nth_map nth_mem)
      with none show False by simp
    qed
    have only: "n = length (workers s)"
      if "n < length (workers ?s')" "w_jobId (workers ?s' ! n) = k" for n
    proof (rule ccontr)
      assume "n \<noteq> length (workers s)"
      with that(1) len have n: "n < length (workers s)" by simp
      with that(2) old [OF n] no_old [OF n] show False by simp
    qed
    show ?thesis
      unfolding sole_writer_def
    proof (intro conjI allI impI)
      fix n m
      assume n: "n < length (workers ?s')" and m: "m < length (workers ?s')"
        and kn: "w_jobId (workers ?s' ! n) = k" and km: "w_jobId (workers ?s' ! m) = k"
      from only [OF n kn] only [OF m km] show "n = m" by simp
    next
      fix n j
      assume n: "n < length (workers ?s')" and k: "w_jobId (workers ?s' ! n) = k"
        and j: "map_of (jobStatus ?s') k = Some j"
      from only [OF n k] have "n = length (workers s)" .
      moreover from j True have "pending j" by (auto simp: tbl pending_def)
      ultimately show "shape (w_pc (workers ?s' ! n)) j" by (simp add: new_pc)
    qed
  next
    case False
    have older: "n < length (workers s)"
      if "n < length (workers ?s')" "w_jobId (workers ?s' ! n) = k" for n
    proof (rule ccontr)
      assume "\<not> n < length (workers s)"
      with that(1) len have "n = length (workers s)" by simp
      with that(2) new_id False show False by simp
    qed
    show ?thesis
      unfolding sole_writer_def
    proof (intro conjI allI impI)
      fix n m
      assume n: "n < length (workers ?s')" and m: "m < length (workers ?s')"
        and kn: "w_jobId (workers ?s' ! n) = k" and km: "w_jobId (workers ?s' ! m) = k"
      from older [OF n kn] older [OF m km] kn km inv show "n = m"
        by (simp add: old sole_writer_def)
    next
      fix n j
      assume n: "n < length (workers ?s')" and k: "w_jobId (workers ?s' ! n) = k"
        and j: "map_of (jobStatus ?s') k = Some j"
      from older [OF n k] have n': "n < length (workers s)" .
      from j False have "map_of (jobStatus s) k = Some j" by (simp add: tbl)
      with inv n' k show "shape (w_pc (workers ?s' ! n)) j"
        by (simp add: old [OF n'] sole_writer_def)
    qed
  qed
qed

lemma sole_writer_status:
  assumes inv: "sole_writer s k"
  shows "sole_writer (fst (job_status s q now)) k"
proof -
  have sub: "map_of (jobStatus s) k = Some j" if "map_of (sweep now (jobStatus s)) k = Some j" for j
    using that by (simp add: map_of_sweep keep_def split: option.splits if_splits)
  have a: "jobStatus (fst (job_status s q now)) = sweep now (jobStatus s)"
    "workers (fst (job_status s q now)) = workers s"
    by (simp_all add: job_status_fields)
  show ?thesis using inv sub unfolding sole_writer_def a by blast
qed

lemma sole_writer_resume:
  assumes inv: "sole_writer s k"
  shows "sole_writer (resume s i r) k"
proof (cases "i < length (workers s)")
  case False
  with inv show ?thesis by (simp add: resume_out_of_range)
next
  case True
  let ?w = "workers s ! i"
  let ?s' = "resume s i r"
  obtain tbl fs pc where p:
    "processSavingsExport (w_orgId ?w) (w_jobId ?w) (w_pc ?w) r (jobStatus s) (disk s) = (tbl, fs, pc)"
    using prod_cases3 by blast
  note eq = resume_eq [OF True p]
  have len: "length (workers ?s') = length (workers s)" by (simp add: eq)
  have ids: "w_jobId (workers ?s' ! n) = w_jobId (workers s ! n)" if "n < length (workers s)" for n
    using that by (cases "n = i") (simp_all add: eq)
  have other: "workers ?s' ! n = workers s ! n" if "n < length (workers s)" "n \<noteq> i" for n
    using that by (simp add: eq)
  have mine: "w_pc (workers ?s' ! i) = pc" using True by (simp add: eq)
  have tbl: "jobStatus ?s' = tbl" by (simp add: eq)
  show ?thesis
    unfolding sole_writer_def
  proof (intro conjI allI impI)
    fix n m
    assume "n < length (workers ?s')" "m < length (workers ?s')"
      "w_jobId (workers ?s' ! n) = k" "w_jobId (workers ?s' ! m) = k"
    with inv show "n = m" by (simp add: len ids sole_writer_def)
  next
    fix n j
    assume n: "n < length (workers ?s')" and kn: "w_jobId (workers ?s' ! n) = k"
      and j: "map_of (jobStatus ?s') k = Some j"
    from n have n': "n < length (workers s)" by (simp add: len)
    from kn have kn': "w_jobId (workers s ! n) = k" by (simp add: ids [OF n'])
    show "shape (w_pc (workers ?s' ! n)) j"
    proof (cases "w_jobId ?w = k")
      case yes: True
      with inv True n' kn' have "n = i" by (simp add: sole_writer_def)
      from j have j': "map_of tbl (w_jobId ?w) = Some j" by (simp add: tbl yes)
      have "map_of (jobStatus s) (w_jobId ?w) \<noteq> None"
      proof
        assume "map_of (jobStatus s) (w_jobId ?w) = None"
        from process_absent [OF p this] j' show False by simp
      qed
      then obtain j0 where j0: "map_of (jobStatus s) (w_jobId ?w) = Some j0" by blast
      with inv True yes have "shape (w_pc ?w) j0" by (simp add: sole_writer_def)
      from process_shape [OF p j0 this] j' have "shape pc j" by simp
      with \<open>n = i\<close> show ?thesis by (simp add: mine)
    next
      case no: False
      with kn' have "n \<noteq> i" by auto
      from no have "k \<noteq> w_jobId ?w" by simp
      from process_other [OF p this] j have "map_of (jobStatus s) k = Some j" by (simp add: tbl)
      with inv n' kn' have "shape (w_pc (workers s ! n)) j" by (simp add: sole_writer_def)
      with other [OF n' \<open>n \<noteq> i\<close>] show ?thesis by simp
    qed
  qed
qed

lemma sole_writer_step:
  assumes "sole_writer s k" and "fresh_for k s e"
  shows "sole_writer (fst (handle s e)) k"
proof (cases e)
  case (Start org t1 t2)
  with assms show ?thesis by (simp add: sole_writer_start)
next
  case (Status q now)
  with assms show ?thesis by (simp add: sole_writer_status)
next
  case (Download q)
  with assms sole_writer_eq [of "fst (download s q)" s k] show ?thesis
    by (simp add: download_fields)
next
  case (Resume i r)
  with assms show ?thesis by (simp add: sole_writer_resume)
next
  case (Transferred p r)
  with assms sole_writer_eq [of "sent s p r" s k] show ?thesis
    by (simp add: sent_fields)
qed

lemma settled_from_sole_writer:
  assumes inv: "sole_writer s k"
    and keys: "keys_have_workers s"
    and j: "map_of (jobStatus s) k = Some j"
    and t: "status j \<noteq> ''processing''"
  shows "settled s k (status j)"
  unfolding settled_def
proof (intro conjI allI impI)
  from keys j show "k \<in> set (map w_jobId (workers s))"
    by (simp add: keys_have_workers_iff)
next
  fix n
  assume n: "n < length (workers s)" and k: "w_jobId (workers s ! n) = k"
  with inv j have sh: "shape (w_pc (workers s ! n)) j" by (simp add: sole_writer_def)
  show "w_pc (workers s ! n) = Finished"
  proof (rule ccontr)
    assume "w_pc (workers s ! n) \<noteq> Finished"
    with sh have "pending j" by (cases "w_pc (workers s ! n)") simp_all
    with t show False by (simp add: pending_def)
  qed
next
  fix j'
  assume "map_of (jobStatus s) k = Some j'"
  with j show "status j' = status j" by simp
qed

lemma started_ids_append: "started_ids (es1 @ es2) = started_ids es1 @ started_ids es2"
  by (induction es1 rule: started_ids.induct) simp_all

lemma computed_once_step:
  assumes "computed_once k s (e # es)"
  shows "fresh_for k s e \<and> computed_once k (fst (handle s e)) es"
proof (cases e)
  case (Start org t1 t2)
  have w: "map w_jobId (workers (fst (start s org t1 t2))) =
      map w_jobId (workers s) @ [savings_export_id org t1]"
    by (simp add: start_def Let_def)
  from assms Start
  have c: "count_list (map w_jobId (workers s) @ savings_export_id org t1 # started_ids es) k \<le> 1"
    by (simp add: computed_once_def)
  then have c': "computed_once k (fst (start s org t1 t2)) es"
    by (simp add: computed_once_def w)
  have "k \<notin> set (map w_jobId (workers s))" if "savings_export_id org t1 = k"
  proof -
    from c that have "count_list (map w_jobId (workers s)) k = 0" by simp
    then show ?thesis by (simp only: count_list_0_iff) simp
  qed
  with c' Start show ?thesis by simp
next
  case (Status q now)
  with assms show ?thesis by (simp add: computed_once_def job_status_fields)
next
  case (Download q)
  with assms show ?thesis by (simp add: computed_once_def download_fields)
next
  case (Resume i r)
  with assms show ?thesis by (simp add: computed_once_def resume_ids)
next
  case (Transferred p r)
  with assms show ?thesis by (simp add: computed_once_def sent_fields)
qed

lemma sole_writer_run: "computed_once k s es \<Longrightarrow> sole_writer s k \<Longrightarrow> sole_writer (final s es) k"
proof (induction es arbitrary: s)
  case Nil
  then show ?case by simp
next
  case (Cons e es)
  from computed_once_step [OF Cons.prems(1)]
  have f: "fresh_for k s e" and c: "computed_once k (fst (handle s e)) es" by simp_all
  from Cons.IH [OF c sole_writer_step [OF Cons.prems(2) f]] show ?case by simp
qed

lemma computed_once_append:
  assumes "computed_once k s (es1 @ es2)"
  shows "computed_once k s es1 \<and> computed_once k (final s es1) es2"
  using assms by (simp add: computed_once_def started_ids_append started_ids_run)

lemma computed_once_init: "computed_once k init es = (count_list (started_ids es) k \<le> 1)"
  by (simp add: computed_once_def init_def)

lemma settled_run: "computed_once k s es \<Longrightarrow> settled s k t \<Longrightarrow> settled (final s es) k t"
proof (induction es arbitrary: s)
  case Nil
  then show ?case by simp
next
  case (Cons e es)
  from computed_once_step [OF Cons.prems(1)]
  have f: "fresh_for k s e" and c: "computed_once k (fst (handle s e)) es" by simp_all
  from Cons.IH [OF c settled_step [OF Cons.prems(2) f]] show ?case by simp
qed

subsection \<open>Further facts about runs and the disk\<close>



lemma status_answer_in_table:
  assumes "snd (job_status s k now) = Json (JobRef a)"
  shows "map_of (jobStatus (fst (job_status s k now))) k = Some a"
  using assms
  by (auto simp: job_status_def Let_def js_get_def split: option.splits if_splits js_value.splits)

lemma terminal_record_stable:
  assumes once: "count_list (started_ids (es1 @ es2)) k \<le> 1"
    and a: "map_of (jobStatus (final init es1)) k = Some a"
    and t: "status a = ''completed'' \<or> status a = ''error''"
    and b: "map_of (jobStatus (final init (es1 @ es2))) k = Some b"
  shows "status b = status a"
proof -
  from once have "computed_once k init (es1 @ es2)" by (simp add: computed_once_init)
  from computed_once_append [OF this]
  have c1: "computed_once k init es1" and c2: "computed_once k (final init es1) es2" by simp_all
  from sole_writer_run [OF c1 sole_writer_init] have inv: "sole_writer (final init es1) k" .
  from keys_have_workers_run [OF keys_have_workers_init]
  have keys: "keys_have_workers (final init es1)" .
  from t have "status a \<noteq> ''processing''" by auto
  from settled_from_sole_writer [OF inv keys a this] have "settled (final init es1) k (status a)" .
  from settled_run [OF c2 this] have "settled (final init (es1 @ es2)) k (status a)"
    by (simp add: final_append)
  with b show ?thesis by (simp add: settled_def)
qed

lemma final_same_ms_run:
  "final init same_ms_run =
     \<lparr>jobStatus = [(''savings-export-42-1000'',
          acme_job\<lparr>status := ''error'', error := Some ''socket hang up''\<rparr>)],
      disk = [''./temp/savings-export-42-2000.zip'' \<mapsto> ''PK''],
      workers = [\<lparr>w_orgId = ''42'', w_jobId = ''savings-export-42-1000'', w_pc = Finished\<rparr>,
                 \<lparr>w_orgId = ''42'', w_jobId = ''savings-export-42-1000'', w_pc = Finished\<rparr>],
      sending = []\<rparr>"
  by (simp add: same_ms_run_def acme_job_def run_defs)

lemma digits_500: "digits_of 500 = ''500''"
  by code_simp

lemma id_7_500: "savings_export_id ''7'' 500 = ''savings-export-7-500''"
  by (simp add: savings_export_id_def digits_500)

lemma final_mixed_run: "final init mixed_run = mixed_state"
  by (simp add: mixed_run_def mixed_state_def acme_job_def id_7_500 run_defs)

lemma started_ids_mixed_run:
  "started_ids mixed_run =
     [''savings-export-7-500'', ''savings-export-7-500'', ''savings-export-42-1000'']"
  by (simp add: mixed_run_def id_7_500 id_1000)

lemma final_mixed_queried:
  "final init
     ((mixed_run @ [Status ''savings-export-42-1000'' 3000]) @ [Download ''savings-export-42-1000'']) =
   mixed_state\<lparr>sending := [''./temp/savings-export-42-2000.zip'']\<rparr>"
  by (simp only: final_append final_mixed_run) (simp add: mixed_state_def acme_job_def run_defs)

lemma answers_unlink_fails_run:
  "answers init unlink_fails_run =
     [StartJson ''processing'' ''Export started. You will be notified when complete.''
        ''savings-export-42-1000'',
      NoResponse, NoResponse, NoResponse,
      Attachment ''./temp/savings-export-42-2000.zip'' ''Acme-savings-analysis.zip'',
      NoResponse,
      Attachment ''./temp/savings-export-42-2000.zip'' ''Acme-savings-analysis.zip'']"
  by (simp add: unlink_fails_run_def acme_run_def run_defs)

lemma final_unlink_fails_run:
  "final init unlink_fails_run =
     acme_state\<lparr>sending := [''./temp/savings-export-42-2000.zip'']\<rparr>"
  by (simp add: unlink_fails_run_def acme_run_def acme_state_def acme_job_def run_defs)

lemma sent_unlink_error:
  "p \<in> set (sending s) \<Longrightarrow> sent s p (Sent UnlinkError) = s\<lparr>sending := remove1 p (sending s)\<rparr>"
  by (simp add: sent_def Let_def)

section \<open>The claims\<close>

subsection \<open>C1: a terminal status is final\<close>

text \<open>
  C1, as amended. Take any run and any job id that at most one start of the run computes
  (ids are \<^verbatim>\<open>savings-export-<orgId>-<clock>\<close>, so this excludes two starts for the same
  organisation within the same millisecond; the other ids of the run may collide as they
  like). Once the record of that id has reached \<^verbatim>\<open>completed\<close> or \<^verbatim>\<open>error\<close> it keeps
  that status in every later state in which it exists: the status leaves \<^verbatim>\<open>processing\<close>
  at most once and no event turns one terminal status into the other. In particular,
  once a status query has answered \<^verbatim>\<open>completed\<close> or \<^verbatim>\<open>error\<close> for the id, every
  later status query for it that answers with a record answers with the same status.
\<close>

theorem terminal_status_is_final:
  assumes "count_list (started_ids (es1 @ es2)) k \<le> 1"
  shows "(\<forall>a b. map_of (jobStatus (final init es1)) k = Some a \<longrightarrow>
            (status a = ''completed'' \<or> status a = ''error'') \<longrightarrow>
            map_of (jobStatus (final init (es1 @ es2))) k = Some b \<longrightarrow> status b = status a)
         \<and> (\<forall>es0 t1 t2 a b. es1 = es0 @ [Status k t1] \<longrightarrow>
            snd (job_status (final init es0) k t1) = Json (JobRef a) \<longrightarrow>
            (status a = ''completed'' \<or> status a = ''error'') \<longrightarrow>
            snd (job_status (final init (es1 @ es2)) k t2) = Json (JobRef b) \<longrightarrow>
            status b = status a)"
proof (intro conjI allI impI)
  fix a b
  assume "map_of (jobStatus (final init es1)) k = Some a"
    and "status a = ''completed'' \<or> status a = ''error''"
    and "map_of (jobStatus (final init (es1 @ es2))) k = Some b"
  with assms show "status b = status a" by (rule terminal_record_stable)
next
  fix es0 t1 t2 a b
  assume es1: "es1 = es0 @ [Status k t1]"
    and a: "snd (job_status (final init es0) k t1) = Json (JobRef a)"
    and t: "status a = ''completed'' \<or> status a = ''error''"
    and b: "snd (job_status (final init (es1 @ es2)) k t2) = Json (JobRef b)"
  from status_answer_in_table [OF a] have a': "map_of (jobStatus (final init es1)) k = Some a"
    by (simp add: es1 final_append)
  from status_answer_in_table [OF b]
  have b': "map_of (jobStatus (final init ((es1 @ es2) @ [Status k t2]))) k = Some b"
    by (simp add: final_append)
  from assms have "count_list (started_ids (es1 @ (es2 @ [Status k t2]))) k \<le> 1"
    by (simp add: started_ids_append)
  from terminal_record_stable [OF this a' t] b' show "status b = status a" by simp
qed

text \<open>
  The Acme job in a run that begins with two colliding starts for organisation 7:
  queried, downloaded, queried again.
\<close>

theorem terminal_status_is_final_witness:
  "count_list
     (started_ids
       ((mixed_run @ [Status ''savings-export-42-1000'' 3000]) @
        [Download ''savings-export-42-1000'']))
     ''savings-export-42-1000'' \<le> 1
   \<and> count_list (started_ids mixed_run) ''savings-export-7-500'' = 2
   \<and> snd (job_status (final init mixed_run) ''savings-export-42-1000'' 3000) = Json (JobRef acme_job)
   \<and> (status acme_job = ''completed'' \<or> status acme_job = ''error'')
   \<and> snd (job_status
        (final init
          ((mixed_run @ [Status ''savings-export-42-1000'' 3000]) @
           [Download ''savings-export-42-1000'']))
        ''savings-export-42-1000'' 4000) = Json (JobRef acme_job)
   \<and> status acme_job = ''completed''"
proof -
  have h1: "count_list
     (started_ids
       ((mixed_run @ [Status ''savings-export-42-1000'' 3000]) @
        [Download ''savings-export-42-1000'']))
     ''savings-export-42-1000'' \<le> 1"
    by (simp add: started_ids_append started_ids_mixed_run)
  have c7: "count_list (started_ids mixed_run) ''savings-export-7-500'' = 2"
    by (simp add: started_ids_mixed_run)
  have h2: "snd (job_status (final init mixed_run) ''savings-export-42-1000'' 3000) = Json (JobRef acme_job)"
    by (simp only: final_mixed_run) (simp add: mixed_state_def acme_job_def run_defs)
  have h3: "status acme_job = ''completed'' \<or> status acme_job = ''error''"
    by (simp add: acme_job_def)
  have h4: "snd (job_status
        (final init
          ((mixed_run @ [Status ''savings-export-42-1000'' 3000]) @
           [Download ''savings-export-42-1000'']))
        ''savings-export-42-1000'' 4000) = Json (JobRef acme_job)"
    by (simp only: final_mixed_queried) (simp add: mixed_state_def acme_job_def run_defs)
  from terminal_status_is_final [OF h1] h2 h3 h4
  have "status acme_job = status acme_job" by blast
  moreover have "status acme_job = ''completed''" by (simp add: acme_job_def)
  ultimately show ?thesis using h1 c7 h2 h3 h4 by blast
qed

text \<open>
  C1 as stated fails when two start requests for organisation 42 are handled within one
  millisecond: both get the id \<^verbatim>\<open>savings-export-42-1000\<close>, two workers write the same
  record, the first completes and the second fails. The status query after the first
  answers \<^verbatim>\<open>completed\<close>, the one after the second \<^verbatim>\<open>error\<close>.
\<close>

theorem terminal_status_counterexample:
  "same_ms_run ! 0 = Start ''42'' 1000 1000
   \<and> same_ms_run ! 1 = Start ''42'' 1000 1000
   \<and> same_ms_run ! 5 = Status ''savings-export-42-1000'' 2500
   \<and> answers init same_ms_run ! 5 = Json (JobRef acme_job)
   \<and> status acme_job = ''completed''
   \<and> same_ms_run ! 7 = Status ''savings-export-42-1000'' 2600
   \<and> answers init same_ms_run ! 7 =
       Json (JobRef (acme_job\<lparr>status := ''error'', error := Some ''socket hang up''\<rparr>))"
  by (simp add: answers_same_ms_run) (simp add: same_ms_run_def acme_job_def)

subsection \<open>C2: a failed name lookup ends the export\<close>

text \<open>
  C2, as amended. The name lookup and the report fetch stand in one \<^verbatim>\<open>try\<close> block. When
  the lookup is rejected, the worker goes to the \<^verbatim>\<open>catch\<close> block: it is finished, the
  job has status \<^verbatim>\<open>error\<close> with the message of the rejection, the report is never
  requested and nothing is written. The generic name is for a lookup that answers
  without a name (or with an empty one): then the worker goes on to the report, and when
  the fetch and the write succeed the job is \<^verbatim>\<open>completed\<close> and the download is named
  \<^verbatim>\<open>organization-savings-analysis.zip\<close>.
\<close>

theorem name_lookup_error_aborts:
  assumes "i < length (workers s)"
    and "workers s ! i = \<lparr>w_orgId = org, w_jobId = k, w_pc = AwaitName\<rparr>"
    and "map_of (jobStatus s) k = Some j"
  shows "w_pc (workers (resume s i (NameReply (NameError m))) ! i) = Finished
         \<and> map_of (jobStatus (resume s i (NameReply (NameError m)))) k =
             Some (j\<lparr>status := ''error'', error := Some (or_else (Some m) ''Export failed'')\<rparr>)
         \<and> disk (resume s i (NameReply (NameError m))) = disk s
         \<and> (n = None \<or> n = Some [] \<longrightarrow>
              w_pc (workers (resume s i (NameReply (NameData n))) ! i) = AwaitReport
              \<and> map_of (jobStatus
                   (resume (resume (resume s i (NameReply (NameData n)))
                      i (ReportReply (ReportData bytes now))) i (WriteReply WriteOk))) k =
                  Some (j\<lparr>orgName := Some ''organization'', status := ''completed'',
                          exportId := Some (savings_export_id org now)\<rparr>)
              \<and> snd (download
                   (resume (resume (resume s i (NameReply (NameData n)))
                      i (ReportReply (ReportData bytes now))) i (WriteReply WriteOk)) k) =
                  Attachment (file_path (savings_export_id org now))
                    ''organization-savings-analysis.zip'')"
proof -
  let ?e = "resume s i (NameReply (NameError m))"
  have e: "?e = s\<lparr>jobStatus := catch_block (jobStatus s) k m, disk := disk s,
      workers := (workers s)[i := (workers s ! i)\<lparr>w_pc := Finished\<rparr>]\<rparr>"
    using assms(1,2) by (simp add: resume_def)
  have e1: "w_pc (workers ?e ! i) = Finished" using assms(1) by (simp add: e)
  have e2: "map_of (jobStatus ?e) k =
      Some (j\<lparr>status := ''error'', error := Some (or_else (Some m) ''Export failed'')\<rparr>)"
    using assms(3) by (simp add: e map_of_catch_block)
  have e3: "disk ?e = disk s" by (simp add: e)
  have fb: "w_pc (workers (resume s i (NameReply (NameData n))) ! i) = AwaitReport
      \<and> map_of (jobStatus
           (resume (resume (resume s i (NameReply (NameData n)))
              i (ReportReply (ReportData bytes now))) i (WriteReply WriteOk))) k =
          Some (j\<lparr>orgName := Some ''organization'', status := ''completed'',
                  exportId := Some (savings_export_id org now)\<rparr>)
      \<and> snd (download
           (resume (resume (resume s i (NameReply (NameData n)))
              i (ReportReply (ReportData bytes now))) i (WriteReply WriteOk)) k) =
          Attachment (file_path (savings_export_id org now)) ''organization-savings-analysis.zip''"
    if n: "n = None \<or> n = Some []"
  proof -
    let ?j1 = "j\<lparr>orgName := Some ''organization''\<rparr>"
    let ?s1 = "resume s i (NameReply (NameData n))"
    let ?s2 = "resume ?s1 i (ReportReply (ReportData bytes now))"
    let ?s3 = "resume ?s2 i (WriteReply WriteOk)"
    from n have o: "or_else n ''organization'' = ''organization''" by (auto simp: or_else_def)
    have s1: "?s1 = s\<lparr>jobStatus := AList.update k ?j1 (jobStatus s), disk := disk s,
        workers := (workers s)[i := \<lparr>w_orgId = org, w_jobId = k, w_pc = AwaitReport\<rparr>]\<rparr>"
      using assms by (simp add: resume_def o)
    have l1: "i < length (workers ?s1)" using assms(1) by (simp add: s1)
    have w1: "workers ?s1 ! i = \<lparr>w_orgId = org, w_jobId = k, w_pc = AwaitReport\<rparr>"
      using assms(1) by (simp add: s1)
    have s2: "?s2 = ?s1\<lparr>jobStatus := jobStatus ?s1, disk := disk ?s1,
        workers := (workers ?s1)[i := \<lparr>w_orgId = org, w_jobId = k,
          w_pc = AwaitWrite (savings_export_id org now) bytes\<rparr>]\<rparr>"
      using l1 by (simp add: resume_def [of ?s1] w1)
    have l2: "i < length (workers ?s2)" using l1 by (simp add: s2)
    have w2: "workers ?s2 ! i = \<lparr>w_orgId = org, w_jobId = k,
          w_pc = AwaitWrite (savings_export_id org now) bytes\<rparr>"
      using l1 by (simp add: s2)
    have t2: "map_of (jobStatus ?s2) k = Some ?j1" by (simp add: s2) (simp add: s1 update_conv')
    have s3: "?s3 = ?s2\<lparr>jobStatus := AList.update k
          (?j1\<lparr>status := ''completed'', exportId := Some (savings_export_id org now)\<rparr>) (jobStatus ?s2),
        disk := (disk ?s2)(file_path (savings_export_id org now) \<mapsto> bytes),
        workers := (workers ?s2)[i := \<lparr>w_orgId = org, w_jobId = k, w_pc = Finished\<rparr>]\<rparr>"
      using l2 by (simp add: resume_def [of ?s2] w2 t2)
    have t3: "map_of (jobStatus ?s3) k =
        Some (j\<lparr>orgName := Some ''organization'', status := ''completed'',
                exportId := Some (savings_export_id org now)\<rparr>)"
      by (simp add: s3 update_conv')
    have d3: "disk ?s3 (file_path (savings_export_id org now)) = Some bytes" by (simp add: s3)
    have "download ?s3 k =
        (?s3\<lparr>sending := sending ?s3 @ [file_path (savings_export_id org now)]\<rparr>,
         Attachment (file_path (savings_export_id org now))
           (or_else (orgName (j\<lparr>orgName := Some ''organization'', status := ''completed'',
                exportId := Some (savings_export_id org now)\<rparr>)) ''organization''
              @ ''-savings-analysis.zip''))"
      by (rule download_serves [OF t3 _ id_non_empty d3]) simp
    then have "snd (download ?s3 k) =
        Attachment (file_path (savings_export_id org now)) ''organization-savings-analysis.zip''"
      by (simp add: or_else_def)
    moreover have "w_pc (workers ?s1 ! i) = AwaitReport" by (simp add: w1)
    ultimately show ?thesis using t3 by blast
  qed
  from e1 e2 e3 fb show ?thesis by blast
qed

text \<open>Organisation 42, the lookup ending with a socket error, or answering without a name.\<close>

theorem name_lookup_error_aborts_witness:
  "0 < length (workers started_state)
   \<and> workers started_state ! 0 =
       \<lparr>w_orgId = ''42'', w_jobId = ''savings-export-42-1000'', w_pc = AwaitName\<rparr>
   \<and> map_of (jobStatus started_state) ''savings-export-42-1000'' = Some started_job
   \<and> map_of (jobStatus (resume started_state 0 (NameReply (NameError ''socket hang up''))))
         ''savings-export-42-1000'' =
       Some (started_job\<lparr>status := ''error'', error := Some ''socket hang up''\<rparr>)
   \<and> w_pc (workers (resume started_state 0 (NameReply (NameError ''socket hang up''))) ! 0) = Finished
   \<and> snd (download
        (resume (resume (resume started_state 0 (NameReply (NameData None)))
           0 (ReportReply (ReportData ''PK'' 2000))) 0 (WriteReply WriteOk))
        ''savings-export-42-1000'') =
       Attachment ''./temp/savings-export-42-2000.zip'' ''organization-savings-analysis.zip''"
proof -
  have h1: "0 < length (workers started_state)" by (simp add: started_state_def)
  have h2: "workers started_state ! 0 =
       \<lparr>w_orgId = ''42'', w_jobId = ''savings-export-42-1000'', w_pc = AwaitName\<rparr>"
    by (simp add: started_state_def)
  have h3: "map_of (jobStatus started_state) ''savings-export-42-1000'' = Some started_job"
    by (simp add: started_state_def)
  note a = name_lookup_error_aborts [OF h1 h2 h3, of "''socket hang up''" None "''PK''" 2000]
  from a have a1: "map_of (jobStatus (resume started_state 0 (NameReply (NameError ''socket hang up''))))
         ''savings-export-42-1000'' =
       Some (started_job\<lparr>status := ''error'', error := Some ''socket hang up''\<rparr>)"
    by (simp add: or_else_def)
  from a have a2: "w_pc (workers (resume started_state 0 (NameReply (NameError ''socket hang up''))) ! 0) = Finished"
    by simp
  from a have a3: "snd (download
        (resume (resume (resume started_state 0 (NameReply (NameData None)))
           0 (ReportReply (ReportData ''PK'' 2000))) 0 (WriteReply WriteOk))
        ''savings-export-42-1000'') =
       Attachment ''./temp/savings-export-42-2000.zip'' ''organization-savings-analysis.zip''"
    by (simp add: id_2000 file_path_def tempDir_def)
  from h1 h2 h3 a1 a2 a3 show ?thesis by blast
qed

text \<open>
  C2 as stated fails when the lookup answers 500: the worker is finished, the job has
  status \<^verbatim>\<open>error\<close>, and a download finds nothing.
\<close>

theorem name_lookup_counterexample:
  "name_fails_run ! 1 = Resume 0 (NameReply (NameError ''Request failed with status code 500''))
   \<and> map_of (jobStatus (final init name_fails_run)) ''savings-export-42-1000'' =
       Some \<lparr>status = ''error'', orgId = ''42'', exportId = None,
          error = Some ''Request failed with status code 500'', created = 1000, orgName = None\<rparr>
   \<and> workers (final init name_fails_run) =
       [\<lparr>w_orgId = ''42'', w_jobId = ''savings-export-42-1000'', w_pc = Finished\<rparr>]
   \<and> snd (download (final init name_fails_run) ''savings-export-42-1000'') =
       NotFound ''Export not found or not completed''"
  by (simp add: final_name_fails_run download_def js_get_def) (simp add: name_fails_run_def)

subsection \<open>C3: the artifact is served until it is unlinked\<close>

text \<open>
  C3, as amended. For every completed job whose file exists, a download serves the file
  and registers the transfer. When the transfer has gone through, the callback unlinks
  the file. If the unlink succeeds (\<open>Sent Unlinked\<close>), the file is gone and a second
  download for the same job id answers Not-Found. If the unlink fails
  (\<open>Sent UnlinkError\<close>), the callback only logs: the file stays and a second download
  serves it again.
\<close>

theorem download_once:
  assumes "map_of (jobStatus s) jobId = Some j"
    and "status j = ''completed''"
    and "exportId j = Some eid"
    and "eid \<noteq> []"
    and "disk s (file_path eid) = Some bytes"
  shows "snd (download s jobId) =
           Attachment (file_path eid) (or_else (orgName j) ''organization'' @ ''-savings-analysis.zip'')
         \<and> file_path eid \<in> set (sending (fst (download s jobId)))
         \<and> disk (sent (fst (download s jobId)) (file_path eid) (Sent Unlinked)) (file_path eid) = None
         \<and> snd (download (sent (fst (download s jobId)) (file_path eid) (Sent Unlinked)) jobId) =
             NotFound ''Export file not found''
         \<and> disk (sent (fst (download s jobId)) (file_path eid) (Sent UnlinkError)) (file_path eid) =
             Some bytes
         \<and> snd (download (sent (fst (download s jobId)) (file_path eid) (Sent UnlinkError)) jobId) =
             Attachment (file_path eid) (or_else (orgName j) ''organization'' @ ''-savings-analysis.zip'')"
proof -
  let ?s1 = "fst (download s jobId)"
  let ?s2 = "sent ?s1 (file_path eid) (Sent Unlinked)"
  let ?s3 = "sent ?s1 (file_path eid) (Sent UnlinkError)"
  note d = download_serves [OF assms(1) assms(3-5)]
  have s1: "?s1 = s\<lparr>sending := sending s @ [file_path eid]\<rparr>" by (simp add: d)
  have pend: "file_path eid \<in> set (sending ?s1)" by (simp add: s1)
  have s2: "?s2 = ?s1\<lparr>sending := remove1 (file_path eid) (sending ?s1),
      disk := (disk ?s1)(file_path eid := None)\<rparr>"
    by (rule sent_unlinked [OF pend])
  have gone: "disk ?s2 (file_path eid) = None" by (simp add: s2)
  have "jobStatus ?s2 = jobStatus s" by (simp add: sent_fields download_fields)
  with assms(1) have tbl: "map_of (jobStatus ?s2) jobId = Some j" by simp
  have s3: "?s3 = ?s1\<lparr>sending := remove1 (file_path eid) (sending ?s1)\<rparr>"
    by (rule sent_unlink_error [OF pend])
  have "disk ?s3 = disk s" by (simp add: s3 download_fields)
  with assms(5) have stays: "disk ?s3 (file_path eid) = Some bytes" by simp
  have "jobStatus ?s3 = jobStatus s" by (simp add: sent_fields download_fields)
  with assms(1) have tbl3: "map_of (jobStatus ?s3) jobId = Some j" by simp
  from download_serves [OF tbl3 assms(3,4) stays]
  have again: "snd (download ?s3 jobId) =
      Attachment (file_path eid) (or_else (orgName j) ''organization'' @ ''-savings-analysis.zip'')"
    by simp
  from download_after_unlink [OF tbl assms(3,4) gone] d pend gone stays again
  show ?thesis by simp
qed

text \<open>The Acme job, downloaded twice, with either outcome of the unlink.\<close>

theorem download_once_witness:
  "map_of (jobStatus acme_state) ''savings-export-42-1000'' = Some acme_job
   \<and> status acme_job = ''completed''
   \<and> exportId acme_job = Some ''savings-export-42-2000''
   \<and> ''savings-export-42-2000'' \<noteq> []
   \<and> disk acme_state (file_path ''savings-export-42-2000'') = Some ''PK''
   \<and> snd (download acme_state ''savings-export-42-1000'') =
       Attachment ''./temp/savings-export-42-2000.zip'' ''Acme-savings-analysis.zip''
   \<and> snd (download
        (sent (fst (download acme_state ''savings-export-42-1000''))
           (file_path ''savings-export-42-2000'') (Sent Unlinked))
        ''savings-export-42-1000'') = NotFound ''Export file not found''
   \<and> snd (download
        (sent (fst (download acme_state ''savings-export-42-1000''))
           (file_path ''savings-export-42-2000'') (Sent UnlinkError))
        ''savings-export-42-1000'') =
       Attachment ''./temp/savings-export-42-2000.zip'' ''Acme-savings-analysis.zip''"
proof -
  have h1: "map_of (jobStatus acme_state) ''savings-export-42-1000'' = Some acme_job"
    by (simp add: acme_state_def)
  have h2: "status acme_job = ''completed''" by (simp add: acme_job_def)
  have h3: "exportId acme_job = Some ''savings-export-42-2000''" by (simp add: acme_job_def)
  have h4: "''savings-export-42-2000'' \<noteq> []" by simp
  have h5: "disk acme_state (file_path ''savings-export-42-2000'') = Some ''PK''"
    by (simp add: acme_state_def file_path_def tempDir_def)
  have nm: "or_else (orgName acme_job) ''organization'' @ ''-savings-analysis.zip'' =
      ''Acme-savings-analysis.zip''"
    by (simp add: or_else_def acme_job_def)
  have fp: "file_path ''savings-export-42-2000'' = ''./temp/savings-export-42-2000.zip''"
    by (simp add: file_path_def tempDir_def)
  note a = download_once [OF h1 h2 h3 h4 h5, unfolded nm]
  from a have a1: "snd (download acme_state ''savings-export-42-1000'') =
       Attachment ''./temp/savings-export-42-2000.zip'' ''Acme-savings-analysis.zip''"
    by (simp add: fp)
  from a have a2: "snd (download
        (sent (fst (download acme_state ''savings-export-42-1000''))
           (file_path ''savings-export-42-2000'') (Sent Unlinked))
        ''savings-export-42-1000'') = NotFound ''Export file not found''"
    by simp
  from a have a3: "snd (download
        (sent (fst (download acme_state ''savings-export-42-1000''))
           (file_path ''savings-export-42-2000'') (Sent UnlinkError))
        ''savings-export-42-1000'') =
       Attachment (file_path ''savings-export-42-2000'') ''Acme-savings-analysis.zip''"
    by blast
  from h1 h2 h3 h4 h5 a1 a2 a3 [unfolded fp] h5 show ?thesis by (simp only: fp simp_thms)
qed

text \<open>
  C3 as stated fails on the Acme run when the unlink after the first transfer fails: the
  fifth event is a download, answered with the attachment; the sixth is its transfer,
  gone through, with the unlink error; the seventh is a second download for the same
  id, answered with the attachment again, and the file is still on disk.
\<close>

theorem download_twice_counterexample:
  "unlink_fails_run ! 4 = Download ''savings-export-42-1000''
   \<and> answers init unlink_fails_run ! 4 =
       Attachment ''./temp/savings-export-42-2000.zip'' ''Acme-savings-analysis.zip''
   \<and> unlink_fails_run ! 5 = Transferred ''./temp/savings-export-42-2000.zip'' (Sent UnlinkError)
   \<and> unlink_fails_run ! 6 = Download ''savings-export-42-1000''
   \<and> answers init unlink_fails_run ! 6 =
       Attachment ''./temp/savings-export-42-2000.zip'' ''Acme-savings-analysis.zip''
   \<and> disk (final init unlink_fails_run) ''./temp/savings-export-42-2000.zip'' = Some ''PK''"
  by (simp add: answers_unlink_fails_run final_unlink_fails_run)
     (simp add: unlink_fails_run_def acme_run_def acme_state_def)

subsection \<open>C4: a status query sweeps first\<close>

text \<open>
  C4. Every status query first performs the expiry sweep: whatever id is asked for, the
  table afterwards is the swept table, from which every record created more than
  3600000 ms (one hour) before the reading of the clock is gone, whatever its status,
  and in which every younger record is unchanged. So a query for a job created longer
  ago than the window answers Not-Found, and that very call has removed the record.
  Job ids are the ids that \<open>start\<close> issues. The sweep tests \<^verbatim>\<open>created && ...\<close>, hence
  the premise that \<^verbatim>\<open>created\<close> is not 0: \<^verbatim>\<open>Date.now()\<close> is positive on any clock
  set after 1 January 1970.
\<close>

theorem status_sweeps_first:
  assumes "map_of (jobStatus s) (savings_export_id org t) = Some j"
    and "0 < created j"
    and "int now - int (created j) > 3600000"
  shows "job_status s (savings_export_id org t) now =
           (s\<lparr>jobStatus := sweep now (jobStatus s)\<rparr>, NotFound ''Job not found'')
         \<and> map_of (sweep now (jobStatus s)) (savings_export_id org t) = None
         \<and> (\<forall>q. fst (job_status s q now) = s\<lparr>jobStatus := sweep now (jobStatus s)\<rparr>)
         \<and> (\<forall>k r. map_of (jobStatus s) k = Some r \<longrightarrow> 0 < created r \<longrightarrow>
               map_of (sweep now (jobStatus s)) k =
                 (if int now - int (created r) > 3600000 then None else Some r))"
proof -
  have gone: "map_of (sweep now (jobStatus s)) (savings_export_id org t) = None"
    using assms by (simp add: map_of_sweep keep_def expired_def)
  have resp: "job_status s (savings_export_id org t) now =
           (s\<lparr>jobStatus := sweep now (jobStatus s)\<rparr>, NotFound ''Job not found'')"
    using gone id_not_inherited [of org t] by (simp add: job_status_def Let_def js_get_def)
  have st: "fst (job_status s q now) = s\<lparr>jobStatus := sweep now (jobStatus s)\<rparr>" for q
    by (simp add: job_status_def Let_def split: js_value.splits)
  have all: "map_of (sweep now (jobStatus s)) k =
                 (if int now - int (created r) > 3600000 then None else Some r)"
    if "map_of (jobStatus s) k = Some r" "0 < created r" for k r
    using that by (simp add: map_of_sweep keep_def expired_def)
  from gone resp st all show ?thesis by blast
qed

text \<open>At the end of the Acme run, two hours later; and two seconds later, when the record stays.\<close>

theorem status_sweeps_first_witness:
  "map_of (jobStatus (final init acme_run)) (savings_export_id ''42'' 1000) = Some acme_job
   \<and> 0 < created acme_job
   \<and> int 7201000 - int (created acme_job) > 3600000
   \<and> job_status (final init acme_run) (savings_export_id ''42'' 1000) 7201000 =
       (acme_state\<lparr>jobStatus := []\<rparr>, NotFound ''Job not found'')
   \<and> map_of (sweep 7201000 (jobStatus (final init acme_run))) (savings_export_id ''42'' 1000) = None
   \<and> fst (job_status (final init acme_run) ''nobody'' 7201000) = acme_state\<lparr>jobStatus := []\<rparr>
   \<and> map_of (sweep 3000 (jobStatus (final init acme_run))) (savings_export_id ''42'' 1000) = Some acme_job"
proof -
  have h1: "map_of (jobStatus (final init acme_run)) (savings_export_id ''42'' 1000) = Some acme_job"
    by (simp add: final_acme_run acme_state_def id_1000)
  have h2: "0 < created acme_job" by (simp add: acme_job_def)
  have h3: "int 7201000 - int (created acme_job) > 3600000" by (simp add: acme_job_def)
  have sw: "sweep 7201000 (jobStatus acme_state) = []"
    by (simp add: acme_state_def acme_job_def sweep_def reap_def expired_def)
  note a = status_sweeps_first [OF h1 h2 h3]
  from a have a1: "job_status (final init acme_run) (savings_export_id ''42'' 1000) 7201000 =
       (acme_state\<lparr>jobStatus := []\<rparr>, NotFound ''Job not found'')"
    by (simp add: sw final_acme_run)
  from a have a2: "map_of (sweep 7201000 (jobStatus (final init acme_run))) (savings_export_id ''42'' 1000) = None"
    by simp
  from a have a3: "fst (job_status (final init acme_run) ''nobody'' 7201000) = acme_state\<lparr>jobStatus := []\<rparr>"
    by (simp add: sw final_acme_run)
  have "map_of (sweep 3000 (jobStatus (final init acme_run))) (savings_export_id ''42'' 1000) = Some acme_job"
    by (simp add: map_of_sweep keep_def expired_def h1 acme_job_def)
  with h1 h2 h3 a1 a2 a3 show ?thesis by blast
qed

subsection \<open>C5: a download removes the file, not the record\<close>

text \<open>
  C5, as amended. After a download of a completed job has gone through and the file has
  been unlinked, the artifact file no longer exists, but the table is exactly what it
  was: the job id is still present with its record, and a status query made before the
  record expires still answers with that record. Only the sweep of a status query
  removes it.
\<close>

theorem download_keeps_record:
  assumes "map_of (jobStatus s) jobId = Some j"
    and "status j = ''completed''"
    and "exportId j = Some eid"
    and "eid \<noteq> []"
    and "disk s (file_path eid) = Some bytes"
  shows "snd (download s jobId) =
           Attachment (file_path eid) (or_else (orgName j) ''organization'' @ ''-savings-analysis.zip'')
         \<and> disk (sent (fst (download s jobId)) (file_path eid) (Sent Unlinked)) (file_path eid) = None
         \<and> jobStatus (sent (fst (download s jobId)) (file_path eid) (Sent Unlinked)) = jobStatus s
         \<and> (\<forall>now. \<not> expired now j \<longrightarrow>
               snd (job_status (sent (fst (download s jobId)) (file_path eid) (Sent Unlinked)) jobId now) =
                 Json (JobRef j))"
proof -
  let ?s1 = "fst (download s jobId)"
  let ?s2 = "sent ?s1 (file_path eid) (Sent Unlinked)"
  note d = download_serves [OF assms(1) assms(3-5)]
  have s1: "?s1 = s\<lparr>sending := sending s @ [file_path eid]\<rparr>" by (simp add: d)
  have pend: "file_path eid \<in> set (sending ?s1)" by (simp add: s1)
  have s2: "?s2 = ?s1\<lparr>sending := remove1 (file_path eid) (sending ?s1),
      disk := (disk ?s1)(file_path eid := None)\<rparr>"
    by (rule sent_unlinked [OF pend])
  have gone: "disk ?s2 (file_path eid) = None" by (simp add: s2)
  have tbl: "jobStatus ?s2 = jobStatus s" by (simp add: sent_fields download_fields)
  have "snd (job_status ?s2 jobId now) = Json (JobRef j)" if "\<not> expired now j" for now
    using that assms(1) by (simp add: job_status_def Let_def js_get_def map_of_sweep keep_def tbl)
  with d gone tbl show ?thesis by simp
qed

text \<open>The Acme job, downloaded, then queried.\<close>

theorem download_keeps_record_witness:
  "map_of (jobStatus acme_state) ''savings-export-42-1000'' = Some acme_job
   \<and> status acme_job = ''completed''
   \<and> exportId acme_job = Some ''savings-export-42-2000''
   \<and> ''savings-export-42-2000'' \<noteq> []
   \<and> disk acme_state (file_path ''savings-export-42-2000'') = Some ''PK''
   \<and> \<not> expired 5000 acme_job
   \<and> jobStatus (sent (fst (download acme_state ''savings-export-42-1000''))
          (file_path ''savings-export-42-2000'') (Sent Unlinked)) = jobStatus acme_state
   \<and> snd (job_status
        (sent (fst (download acme_state ''savings-export-42-1000''))
           (file_path ''savings-export-42-2000'') (Sent Unlinked))
        ''savings-export-42-1000'' 5000) = Json (JobRef acme_job)"
proof -
  have h1: "map_of (jobStatus acme_state) ''savings-export-42-1000'' = Some acme_job"
    by (simp add: acme_state_def)
  have h2: "status acme_job = ''completed''" by (simp add: acme_job_def)
  have h3: "exportId acme_job = Some ''savings-export-42-2000''" by (simp add: acme_job_def)
  have h4: "''savings-export-42-2000'' \<noteq> []" by simp
  have h5: "disk acme_state (file_path ''savings-export-42-2000'') = Some ''PK''"
    by (simp add: acme_state_def file_path_def tempDir_def)
  have h6: "\<not> expired 5000 acme_job" by (simp add: expired_def acme_job_def)
  note a = download_keeps_record [OF h1 h2 h3 h4 h5]
  from a have a1: "jobStatus (sent (fst (download acme_state ''savings-export-42-1000''))
          (file_path ''savings-export-42-2000'') (Sent Unlinked)) = jobStatus acme_state"
    by simp
  from a h6 have a2: "snd (job_status
        (sent (fst (download acme_state ''savings-export-42-1000''))
           (file_path ''savings-export-42-2000'') (Sent Unlinked))
        ''savings-export-42-1000'' 5000) = Json (JobRef acme_job)"
    by blast
  from h1 h2 h3 h4 h5 h6 a1 a2 show ?thesis by blast
qed

text \<open>
  C5 as stated fails on the Acme run followed by a download: the fifth event is the
  download, answered with the attachment; the sixth is its transfer with a successful
  unlink; the file is gone and the record is still in the table.
\<close>

theorem download_destroys_record_counterexample:
  "downloaded_run ! 4 = Download ''savings-export-42-1000''
   \<and> answers init downloaded_run ! 4 =
       Attachment ''./temp/savings-export-42-2000.zip'' ''Acme-savings-analysis.zip''
   \<and> downloaded_run ! 5 = Transferred ''./temp/savings-export-42-2000.zip'' (Sent Unlinked)
   \<and> disk (final init downloaded_run) ''./temp/savings-export-42-2000.zip'' = None
   \<and> map_of (jobStatus (final init downloaded_run)) ''savings-export-42-1000'' = Some acme_job"
  by (simp add: answers_downloaded_run final_downloaded_run)
     (simp add: downloaded_run_def acme_run_def acme_state_def)

subsection \<open>C6: the fields of a record follow its status\<close>

text \<open>
  C6, as amended. In every run, every record whose job id at most one start of the run
  computes (whatever happens to the other ids) has a non-empty \<^verbatim>\<open>exportId\<close> exactly
  when its status is \<^verbatim>\<open>completed\<close>, and a non-empty \<^verbatim>\<open>error\<close> exactly when its status
  is \<^verbatim>\<open>error\<close>; a field that is not non-empty is \<^verbatim>\<open>null\<close>. The runs cover every
  operation: creation, each stretch of the worker, with its success and its failures,
  the sweep, the download and its callback.
\<close>

theorem record_fields_match_status:
  assumes "count_list (started_ids es) k \<le> 1"
    and "map_of (jobStatus (final init es)) k = Some j"
  shows "(non_empty (exportId j) \<longleftrightarrow> status j = ''completed'')
         \<and> (exportId j \<noteq> None \<longleftrightarrow> status j = ''completed'')
         \<and> (non_empty (error j) \<longleftrightarrow> status j = ''error'')
         \<and> (error j \<noteq> None \<longleftrightarrow> status j = ''error'')"
proof -
  from assms(1) have "computed_once k init es" by (simp add: computed_once_init)
  from sole_writer_run [OF this sole_writer_init]
  have inv: "sole_writer (final init es) k" .
  from keys_have_workers_run [OF keys_have_workers_init] assms(2)
  have "k \<in> set (map w_jobId (workers (final init es)))"
    by (simp add: keys_have_workers_iff)
  then obtain n where n: "n < length (workers (final init es))"
    and k: "w_jobId (workers (final init es) ! n) = k"
    by (auto simp: in_set_conv_nth)
  with inv assms(2) have sh: "shape (w_pc (workers (final init es) ! n)) j"
    by (simp add: sole_writer_def)
  show ?thesis
  proof (cases "w_pc (workers (final init es) ! n)")
    case Finished
    with sh show ?thesis by (auto simp: non_empty_def split: option.splits)
  next
    case AwaitName
    with sh show ?thesis by (simp add: pending_def non_empty_def)
  next
    case AwaitReport
    with sh show ?thesis by (simp add: pending_def non_empty_def)
  next
    case (AwaitWrite eid bytes)
    with sh show ?thesis by (simp add: pending_def non_empty_def)
  qed
qed

text \<open>The record of the Acme job in the run that begins with two colliding starts for organisation 7.\<close>

theorem record_fields_match_status_witness:
  "count_list (started_ids mixed_run) ''savings-export-42-1000'' \<le> 1
   \<and> count_list (started_ids mixed_run) ''savings-export-7-500'' = 2
   \<and> map_of (jobStatus (final init mixed_run)) ''savings-export-42-1000'' = Some acme_job
   \<and> non_empty (exportId acme_job)
   \<and> status acme_job = ''completed''
   \<and> \<not> non_empty (error acme_job)
   \<and> status acme_job \<noteq> ''error''"
proof -
  have h1: "count_list (started_ids mixed_run) ''savings-export-42-1000'' \<le> 1"
    by (simp add: started_ids_mixed_run)
  have c7: "count_list (started_ids mixed_run) ''savings-export-7-500'' = 2"
    by (simp add: started_ids_mixed_run)
  have h2: "map_of (jobStatus (final init mixed_run)) ''savings-export-42-1000'' = Some acme_job"
    by (simp add: final_mixed_run mixed_state_def)
  have c: "status acme_job = ''completed''" by (simp add: acme_job_def)
  have e: "status acme_job \<noteq> ''error''" by (simp add: acme_job_def)
  from record_fields_match_status [OF h1 h2] c e
  have "non_empty (exportId acme_job)" "\<not> non_empty (error acme_job)" by blast+
  with h1 c7 h2 c e show ?thesis by blast
qed

text \<open>
  C6 as stated fails on two starts for organisation 42 within one millisecond: the record
  ends with status \<^verbatim>\<open>error\<close> and the export id that the first worker stored.
\<close>

theorem record_fields_counterexample:
  "same_ms_run ! 0 = Start ''42'' 1000 1000
   \<and> same_ms_run ! 1 = Start ''42'' 1000 1000
   \<and> map_of (jobStatus (final init same_ms_run)) ''savings-export-42-1000'' =
       Some (acme_job\<lparr>status := ''error'', error := Some ''socket hang up''\<rparr>)
   \<and> status (acme_job\<lparr>status := ''error'', error := Some ''socket hang up''\<rparr>) = ''error''
   \<and> exportId (acme_job\<lparr>status := ''error'', error := Some ''socket hang up''\<rparr>) =
       Some ''savings-export-42-2000''
   \<and> non_empty (exportId (acme_job\<lparr>status := ''error'', error := Some ''socket hang up''\<rparr>))"
  by (simp add: final_same_ms_run) (simp add: same_ms_run_def acme_job_def non_empty_def)

subsection \<open>C7: what a failing worker leaves on disk\<close>




subsection \<open>C8: what a start returns and leaves behind\<close>

text \<open>
  C8, as amended. In every reachable state and for every organisation identifier,
  \<open>start\<close> answers \<^verbatim>\<open>{status: "processing", message, jobId}\<close> with the id
  \<^verbatim>\<open>savings-export-<orgId>-<clock>\<close>; afterwards the table holds under that id a record
  with status \<^verbatim>\<open>processing\<close>, the organisation, \<^verbatim>\<open>created\<close> set to the second reading
  of the clock, and neither export id nor error; the other records are untouched, the
  disk is untouched, and the worker has been spawned and is suspended at its first
  \<^verbatim>\<open>await\<close>. The id is new to the table when the start is fresh, that is, when no
  earlier start computed it.
\<close>

theorem start_postcondition:
  assumes "s = final init es"
  shows "snd (start s org now1 now2) =
           StartJson ''processing'' ''Export started. You will be notified when complete.''
             (savings_export_id org now1)
         \<and> map_of (jobStatus (fst (start s org now1 now2))) (savings_export_id org now1) =
             Some \<lparr>status = ''processing'', orgId = org, exportId = None, error = None,
                    created = now2, orgName = None\<rparr>
         \<and> (\<forall>q. q \<noteq> savings_export_id org now1 \<longrightarrow>
               map_of (jobStatus (fst (start s org now1 now2))) q = map_of (jobStatus s) q)
         \<and> workers (fst (start s org now1 now2)) =
             workers s @ [\<lparr>w_orgId = org, w_jobId = savings_export_id org now1, w_pc = AwaitName\<rparr>]
         \<and> disk (fst (start s org now1 now2)) = disk s
         \<and> (fresh s (Start org now1 now2) \<longrightarrow>
               map_of (jobStatus s) (savings_export_id org now1) = None)"
proof -
  from keys_have_workers_run [OF keys_have_workers_init, of es] assms
  have "keys_have_workers s" by simp
  then have "map_of (jobStatus s) (savings_export_id org now1) = None"
    if "fresh s (Start org now1 now2)"
    using that unfolding keys_have_workers_iff by auto
  then show ?thesis by (simp add: start_def Let_def update_conv')
qed

text \<open>A second export for organisation 42, a second after the first.\<close>

theorem start_postcondition_witness:
  "fresh (final init acme_run) (Start ''42'' 2000 2001)
   \<and> map_of (jobStatus (final init acme_run)) (savings_export_id ''42'' 2000) = None
   \<and> snd (start (final init acme_run) ''42'' 2000 2001) =
       StartJson ''processing'' ''Export started. You will be notified when complete.''
         ''savings-export-42-2000''
   \<and> map_of (jobStatus (fst (start (final init acme_run) ''42'' 2000 2001)))
         ''savings-export-42-2000'' =
       Some \<lparr>status = ''processing'', orgId = ''42'', exportId = None, error = None,
              created = 2001, orgName = None\<rparr>
   \<and> map_of (jobStatus (fst (start (final init acme_run) ''42'' 2000 2001)))
         ''savings-export-42-1000'' = Some acme_job"
proof -
  have f: "fresh (final init acme_run) (Start ''42'' 2000 2001)"
    by (simp add: final_acme_run acme_state_def id_2000)
  have ne: "''savings-export-42-1000'' \<noteq> savings_export_id ''42'' 2000" by (simp add: id_2000)
  have old: "map_of (jobStatus (final init acme_run)) ''savings-export-42-1000'' = Some acme_job"
    by (simp add: final_acme_run acme_state_def)
  note a = start_postcondition [OF refl, of acme_run "''42''" 2000 2001]
  from a f have a1: "map_of (jobStatus (final init acme_run)) (savings_export_id ''42'' 2000) = None"
    by blast
  from a have a2: "snd (start (final init acme_run) ''42'' 2000 2001) =
       StartJson ''processing'' ''Export started. You will be notified when complete.''
         ''savings-export-42-2000''"
    by (simp add: id_2000)
  from a have a3: "map_of (jobStatus (fst (start (final init acme_run) ''42'' 2000 2001)))
         ''savings-export-42-2000'' =
       Some \<lparr>status = ''processing'', orgId = ''42'', exportId = None, error = None,
              created = 2001, orgName = None\<rparr>"
    by (simp add: id_2000)
  from a ne have "map_of (jobStatus (fst (start (final init acme_run) ''42'' 2000 2001)))
         ''savings-export-42-1000'' = map_of (jobStatus (final init acme_run)) ''savings-export-42-1000''"
    by blast
  with old have a4: "map_of (jobStatus (fst (start (final init acme_run) ''42'' 2000 2001)))
         ''savings-export-42-1000'' = Some acme_job"
    by simp
  from f a1 a2 a3 a4 show ?thesis by blast
qed

text \<open>
  C8 as stated fails on a second start for organisation 42 within the same millisecond:
  it answers with the id that is already in the table, and two workers hold that id.
\<close>

theorem start_id_counterexample:
  "final init [Start ''42'' 1000 1000] = started_state
   \<and> map_of (jobStatus started_state) ''savings-export-42-1000'' = Some started_job
   \<and> snd (start started_state ''42'' 1000 1000) =
       StartJson ''processing'' ''Export started. You will be notified when complete.''
         ''savings-export-42-1000''
   \<and> w_jobId (workers (fst (start started_state ''42'' 1000 1000)) ! 0) = ''savings-export-42-1000''
   \<and> w_jobId (workers (fst (start started_state ''42'' 1000 1000)) ! 1) = ''savings-export-42-1000''"
  by (simp only: final_started) (simp add: started_state_def start_def id_1000 Let_def)

subsection \<open>C9: a status query for an inherited property name\<close>

text \<open>
  C9. A status query for the id \<^verbatim>\<open>constructor\<close>, which no start has issued, finds the
  member that the table inherits from \<^verbatim>\<open>Object.prototype\<close>. The value is truthy, so
  the guard \<^verbatim>\<open>if (!jobStatus[jobId])\<close> does not answer 404 and the handler passes the
  inherited member to \<^verbatim>\<open>res.json\<close>: the answer is neither Not-Found nor one of the
  three shapes.
\<close>

theorem status_inherited_key:
  "job_status init ''constructor'' now = (init, Json (Inherited ''constructor''))"
  by (simp add: job_status_def init_def sweep_def js_get_def object_prototype_keys_def)

subsection \<open>C10: download looks at no clock\<close>

text \<open>
  C10. \<open>download\<close> takes no clock reading and never touches the table. For every
  completed job whose export id is set and whose file exists, it serves that file under
  the name built from the organisation name, however old \<open>created j\<close> is: the record
  is only required to be in the table still. Of all events only a status query can
  remove a record.
\<close>

theorem download_ignores_age:
  assumes "map_of (jobStatus s) jobId = Some j"
    and "status j = ''completed''"
    and "exportId j = Some eid"
    and "eid \<noteq> []"
    and "disk s (file_path eid) = Some bytes"
  shows "download s jobId =
           (s\<lparr>sending := sending s @ [file_path eid]\<rparr>,
            Attachment (file_path eid) (or_else (orgName j) ''organization'' @ ''-savings-analysis.zip''))
         \<and> jobStatus (fst (download s jobId)) = jobStatus s
         \<and> (\<forall>e k. (\<forall>q now. e \<noteq> Status q now) \<longrightarrow> map_of (jobStatus s) k \<noteq> None \<longrightarrow>
               map_of (jobStatus (fst (handle s e))) k \<noteq> None)"
  using download_serves [OF assms(1) assms(3-5)] only_status_removes download_fields by blast

text \<open>The Acme job, a day after its creation.\<close>

theorem download_ignores_age_witness:
  "map_of (jobStatus acme_state) ''savings-export-42-1000'' = Some acme_job
   \<and> status acme_job = ''completed''
   \<and> exportId acme_job = Some ''savings-export-42-2000''
   \<and> ''savings-export-42-2000'' \<noteq> []
   \<and> disk acme_state (file_path ''savings-export-42-2000'') = Some ''PK''
   \<and> expired 86400000 acme_job
   \<and> download acme_state ''savings-export-42-1000'' =
       (acme_state\<lparr>sending := [''./temp/savings-export-42-2000.zip'']\<rparr>,
        Attachment ''./temp/savings-export-42-2000.zip'' ''Acme-savings-analysis.zip'')
   \<and> jobStatus (fst (download acme_state ''savings-export-42-1000'')) = jobStatus acme_state
   \<and> map_of (jobStatus (fst (handle acme_state (Download ''savings-export-42-1000''))))
        ''savings-export-42-1000'' \<noteq> None"
proof -
  have h1: "map_of (jobStatus acme_state) ''savings-export-42-1000'' = Some acme_job"
    by (simp add: acme_state_def)
  have h2: "status acme_job = ''completed''" by (simp add: acme_job_def)
  have h3: "exportId acme_job = Some ''savings-export-42-2000''" by (simp add: acme_job_def)
  have h4: "''savings-export-42-2000'' \<noteq> []" by simp
  have h5: "disk acme_state (file_path ''savings-export-42-2000'') = Some ''PK''"
    by (simp add: acme_state_def file_path_def tempDir_def)
  have h6: "expired 86400000 acme_job" by (simp add: expired_def acme_job_def)
  note a = download_ignores_age [OF h1 h2 h3 h4 h5]
  from a have a1: "download acme_state ''savings-export-42-1000'' =
       (acme_state\<lparr>sending := [''./temp/savings-export-42-2000.zip'']\<rparr>,
        Attachment ''./temp/savings-export-42-2000.zip'' ''Acme-savings-analysis.zip'')"
    by (simp add: file_path_def tempDir_def or_else_def acme_job_def acme_state_def)
  from a have a2: "jobStatus (fst (download acme_state ''savings-export-42-1000'')) = jobStatus acme_state"
    by simp
  have ns: "\<forall>q now. Download ''savings-export-42-1000'' \<noteq> Status q now" by simp
  have ne: "map_of (jobStatus acme_state) ''savings-export-42-1000'' \<noteq> None" by (simp add: h1)
  from a ns ne have a3: "map_of (jobStatus (fst (handle acme_state (Download ''savings-export-42-1000''))))
        ''savings-export-42-1000'' \<noteq> None" by blast
  from h1 h2 h3 h4 h5 h6 a1 a2 a3 show ?thesis by blast
qed

end
